theory Spec2Isabelle
  imports Main
begin

text \<open>
  A model of \<^verbatim>\<open>src/index.ts\<close> of actionnetwork-ical: a small HTTP service that
  fetches the event feeds of Action Network, page by page and feed by feed, and serves
  them as one iCalendar document. The definitions follow the handlers
  \<^verbatim>\<open>/directory\<close> and \<^verbatim>\<open>/events\<close> and the functions
  \<^verbatim>\<open>generateICalForFeeds\<close> and \<^verbatim>\<open>fetchAllEventsForCalendar\<close>. Exceptions are
  values of a sum type, the network and the clock are explicit arguments, and the
  parts of the JavaScript library the program calls (strings, \<^verbatim>\<open>Date\<close>, property
  lookup, \<^verbatim>\<open>Promise.all\<close>) are modelled as far as the program uses them.
\<close>

section \<open>JavaScript strings\<close>

text \<open>
  Strings are character lists. \<^verbatim>\<open>toUpperCase\<close> and \<^verbatim>\<open>toLowerCase\<close> belong to
  the engine and follow the Unicode case mappings (the upper case of one character can
  be two); they are taken from the host, below. On a string of ASCII characters they are
  the two maps defined here, character by character.
\<close>

definition ascii_upper :: "char \<Rightarrow> char" where
  "ascii_upper c =
     (let n = (of_char c :: nat) in if 97 \<le> n \<and> n \<le> 122 then char_of (n - 32) else c)"

definition ascii_lower :: "char \<Rightarrow> char" where
  "ascii_lower c =
     (let n = (of_char c :: nat) in if 65 \<le> n \<and> n \<le> 90 then char_of (n + 32) else c)"

definition ascii_only :: "string \<Rightarrow> bool" where
  "ascii_only s = (\<forall>c \<in> set s. (of_char c :: nat) < 128)"

text \<open>\<^verbatim>\<open>word.charAt(0)\<close> is the empty string on the empty word; \<^verbatim>\<open>word.slice(1)\<close> too.\<close>

definition charAt0 :: "string \<Rightarrow> string" where
  "charAt0 w = take 1 w"

definition slice1 :: "string \<Rightarrow> string" where
  "slice1 w = drop 1 w"

text \<open>\<^verbatim>\<open>xs.join(sep)\<close>: the empty array gives the empty string.\<close>

fun join :: "string \<Rightarrow> string list \<Rightarrow> string" where
  "join sep [] = []"
| "join sep [w] = w"
| "join sep (w # v # ws) = w @ sep @ join sep (v # ws)"

text \<open>
  \<^verbatim>\<open>s.split(c)\<close> for a one-character separator: the empty string gives one empty
  token, and two separators in a row give an empty token between them.
\<close>

fun split :: "char \<Rightarrow> string \<Rightarrow> string list" where
  "split c [] = [[]]"
| "split c (x # xs) =
     (if x = c then [] # split c xs
      else (case split c xs of [] \<Rightarrow> [[x]] | w # ws \<Rightarrow> (x # w) # ws))"

section \<open>The credential registry\<close>

text \<open>
  \<^verbatim>\<open>API_KEYS\<close> is built once from the process environment, which is not part of the
  program text: it is a parameter here, the own properties of the object in the order
  \<^verbatim>\<open>Object.keys\<close> lists them (identifier, token), with no identifier twice.
\<close>

type_synonym api_keys = "(string \<times> string) list"

definition object_keys :: "api_keys \<Rightarrow> string list" where
  "object_keys keys = map fst keys"

section \<open>The directory endpoint\<close>

text \<open>
  \<^verbatim>\<open>Object.keys(API_KEYS).map((key) => `- ${key}`).join("\n")\<close>, the body of the
  text response.
\<close>

definition directory :: "api_keys \<Rightarrow> string" where
  "directory keys = join [CHR 0x0A] (map (\<lambda>key. ''- '' @ key) (object_keys keys))"

section \<open>Dates\<close>

text \<open>
  A \<^verbatim>\<open>Date\<close> holds a time value: a number of milliseconds since the epoch, or NaN (an
  Invalid Date), which is \<open>None\<close> here. The functions below are the abstract operations
  of the language definition that \<^verbatim>\<open>getHours\<close>, \<^verbatim>\<open>setHours\<close> and
  \<^verbatim>\<open>toISOString\<close> are made of.
\<close>

definition msPerDay :: int where "msPerDay = 86400000"
definition msPerHour :: int where "msPerHour = 3600000"
definition msPerMinute :: int where "msPerMinute = 60000"
definition msPerSecond :: int where "msPerSecond = 1000"

definition Day :: "int \<Rightarrow> int" where
  "Day t = t div msPerDay"

definition HourFromTime :: "int \<Rightarrow> int" where
  "HourFromTime t = (t div msPerHour) mod 24"

definition MinFromTime :: "int \<Rightarrow> int" where
  "MinFromTime t = (t div msPerMinute) mod 60"

definition SecFromTime :: "int \<Rightarrow> int" where
  "SecFromTime t = (t div msPerSecond) mod 60"

definition msFromTime :: "int \<Rightarrow> int" where
  "msFromTime t = t mod msPerSecond"

definition MakeTime :: "int \<Rightarrow> int \<Rightarrow> int \<Rightarrow> int \<Rightarrow> int" where
  "MakeTime hour m s milli = hour * msPerHour + m * msPerMinute + s * msPerSecond + milli"

definition MakeDate :: "int \<Rightarrow> int \<Rightarrow> int" where
  "MakeDate day time = day * msPerDay + time"

definition TimeClip :: "int \<Rightarrow> int option" where
  "TimeClip t = (if \<bar>t\<bar> > 8640000000000000 then None else Some t)"

text \<open>
  What the program takes from the machine and the engine it runs on: how the
  \<^verbatim>\<open>Date\<close> constructor reads a string (\<open>None\<close> for a string it cannot read; the
  accepted formats beyond the ISO one differ between engines); the local time zone, as
  the two conversions between a time value and local time (in a zone with a fixed offset
  \<open>c\<close> they are \<open>t + c\<close> and \<open>t - c\<close>); and the two case conversions of strings.
\<close>

record host =
  Date_parse :: "string \<Rightarrow> int option"
  LocalTime :: "int \<Rightarrow> int"
  UTC :: "int \<Rightarrow> int"
  toUpperCase :: "string \<Rightarrow> string"
  toLowerCase :: "string \<Rightarrow> string"

definition getHours :: "host \<Rightarrow> int option \<Rightarrow> int option" where
  "getHours h d = (case d of None \<Rightarrow> None | Some t \<Rightarrow> Some (HourFromTime (LocalTime h t)))"

definition setHours :: "host \<Rightarrow> int option \<Rightarrow> int option \<Rightarrow> int option" where
  "setHours h d hour =
     (case d of
        None \<Rightarrow> None
      | Some t0 \<Rightarrow>
          (case hour of
             None \<Rightarrow> None
           | Some hr \<Rightarrow>
               (let t = LocalTime h t0;
                    date = MakeDate (Day t) (MakeTime hr (MinFromTime t) (SecFromTime t) (msFromTime t))
                in TimeClip (UTC h date))))"

subsection \<open>The ISO string of a time value\<close>

text \<open>The civil date of a day number (days since 1970-01-01), in the proleptic Gregorian calendar.\<close>

definition civil_from_days :: "int \<Rightarrow> int \<times> int \<times> int" where
  "civil_from_days z0 =
     (let z = z0 + 719468;
          era = z div 146097;
          doe = z mod 146097;
          yoe = (doe - doe div 1460 + doe div 36524 - doe div 146096) div 365;
          doy = doe - (365 * yoe + yoe div 4 - yoe div 100);
          mp = (5 * doy + 2) div 153;
          d = doy - (153 * mp + 2) div 5 + 1;
          m = (if mp < 10 then mp + 3 else mp - 9);
          y = yoe + era * 400 + (if m \<le> 2 then 1 else 0)
      in (y, m, d))"

definition days_from_civil :: "int \<Rightarrow> int \<Rightarrow> int \<Rightarrow> int" where
  "days_from_civil y0 m d =
     (let y = (if m \<le> 2 then y0 - 1 else y0);
          era = y div 400;
          yoe = y mod 400;
          doy = (153 * (if m > 2 then m - 3 else m + 9) + 2) div 5 + d - 1;
          doe = yoe * 365 + yoe div 4 - yoe div 100 + doy
      in era * 146097 + doe - 719468)"

fun digits :: "nat \<Rightarrow> nat \<Rightarrow> string" where
  "digits 0 n = []"
| "digits (Suc w) n = digits w (n div 10) @ [char_of (48 + n mod 10)]"

definition year_string :: "int \<Rightarrow> string" where
  "year_string y =
     (if 0 \<le> y \<and> y \<le> 9999 then digits 4 (nat y)
      else (if y < 0 then ''-'' else ''+'') @ digits 6 (nat \<bar>y\<bar>))"

definition iso_string :: "int \<Rightarrow> string" where
  "iso_string t =
     (case civil_from_days (Day t) of
        (y, m, d) \<Rightarrow>
          year_string y @ ''-'' @ digits 2 (nat m) @ ''-'' @ digits 2 (nat d) @ ''T'' @
          digits 2 (nat (HourFromTime t)) @ '':'' @ digits 2 (nat (MinFromTime t)) @ '':'' @
          digits 2 (nat (SecFromTime t)) @ ''.'' @ digits 3 (nat (msFromTime t)) @ ''Z'')"

datatype error = RangeError | TypeError | SyntaxError | FetchFailed | CalendarError

text \<open>\<^verbatim>\<open>toISOString\<close> throws a RangeError on an Invalid Date.\<close>

definition toISOString :: "int option \<Rightarrow> error + string" where
  "toISOString d = (case d of None \<Rightarrow> Inl RangeError | Some t \<Rightarrow> Inr (iso_string t))"

subsection \<open>Two hosts\<close>

text \<open>
  Reading the ISO shapes \<^verbatim>\<open>YYYY-MM-DDTHH:mm:ssZ\<close> and
  \<^verbatim>\<open>YYYY-MM-DDTHH:mm:ss.sssZ\<close>, on which every engine agrees (the first is the shape
  of the dates Action Network sends, the second the shape \<^verbatim>\<open>toISOString\<close> writes),
  the year being four digits, or a sign and six digits. Everything else is not read.
\<close>

definition digit_of :: "char \<Rightarrow> nat option" where
  "digit_of c =
     (let n = (of_char c :: nat) in if 48 \<le> n \<and> n \<le> 57 then Some (n - 48) else None)"

fun number_of :: "int \<Rightarrow> string \<Rightarrow> int option" where
  "number_of acc [] = Some acc"
| "number_of acc (c # cs) =
     (case digit_of c of None \<Rightarrow> None | Some k \<Rightarrow> number_of (10 * acc + int k) cs)"

definition days_in_month :: "int \<Rightarrow> int \<Rightarrow> int" where
  "days_in_month y m =
     (if m = 2 then (if y mod 4 = 0 \<and> (y mod 100 \<noteq> 0 \<or> y mod 400 = 0) then 29 else 28)
      else if m = 4 \<or> m = 6 \<or> m = 9 \<or> m = 11 then 30 else 31)"

definition time_of_fields ::
  "int option \<Rightarrow> int option \<Rightarrow> int option \<Rightarrow> int option \<Rightarrow> int option \<Rightarrow> int option \<Rightarrow>
   int option \<Rightarrow> int option" where
  "time_of_fields yo mo do ho mio so mso =
     (case (yo, mo, do, ho, mio, so, mso) of
        (Some y, Some m, Some d, Some hr, Some mi, Some s, Some ms) \<Rightarrow>
          if 1 \<le> m \<and> m \<le> 12 \<and> 1 \<le> d \<and> d \<le> days_in_month y m \<and>
             hr \<le> 23 \<and> mi \<le> 59 \<and> s \<le> 59
          then TimeClip (MakeDate (days_from_civil y m d) (MakeTime hr mi s ms))
          else None
      | _ \<Rightarrow> None)"

text \<open>What follows the year: \<^verbatim>\<open>-MM-DDTHH:mm:ssZ\<close> or \<^verbatim>\<open>-MM-DDTHH:mm:ss.sssZ\<close>.\<close>

definition parse_after_year :: "int option \<Rightarrow> string \<Rightarrow> int option" where
  "parse_after_year y s =
     (let field = (\<lambda>i n. number_of 0 (take n (drop i s)));
          shape = (length s \<ge> 16 \<and> s ! 0 = CHR ''-'' \<and> s ! 3 = CHR ''-'' \<and> s ! 6 = CHR ''T'' \<and>
                   s ! 9 = CHR '':'' \<and> s ! 12 = CHR '':'')
      in if shape \<and> length s = 16 \<and> s ! 15 = CHR ''Z''
         then time_of_fields y (field 1 2) (field 4 2) (field 7 2) (field 10 2) (field 13 2)
                (Some 0)
         else if shape \<and> length s = 20 \<and> s ! 15 = CHR ''.'' \<and> s ! 19 = CHR ''Z''
         then time_of_fields y (field 1 2) (field 4 2) (field 7 2) (field 10 2) (field 13 2)
                (field 16 3)
         else None)"

definition parse_iso :: "string \<Rightarrow> int option" where
  "parse_iso s =
     (case s of
        [] \<Rightarrow> None
      | c # cs \<Rightarrow>
          if c = CHR ''+'' then parse_after_year (number_of 0 (take 6 cs)) (drop 6 cs)
          else if c = CHR ''-'' then
            (case number_of 0 (take 6 cs) of
               None \<Rightarrow> None
             | Some y \<Rightarrow> if y = 0 then None else parse_after_year (Some (- y)) (drop 6 cs))
          else parse_after_year (number_of 0 (take 4 s)) (drop 4 s))"

text \<open>
  A server whose clock is set to UTC. The two sample hosts change the case of ASCII
  letters and leave every other character as it is; they are used on ASCII text only.
\<close>

definition utc_host :: host where
  "utc_host =
     \<lparr>Date_parse = parse_iso, LocalTime = (\<lambda>t. t), UTC = (\<lambda>t. t),
      toUpperCase = map ascii_upper, toLowerCase = map ascii_lower\<rparr>"

text \<open>
  A machine on New York time around the change to daylight saving time of
  2024-03-10T07:00:00Z (time value 1710054000000): five hours behind UTC before it, four
  hours after it. A local time in the hour the clocks skip is read with the offset
  before the change.
\<close>

definition new_york_host :: host where
  "new_york_host =
     \<lparr>Date_parse = parse_iso,
      LocalTime = (\<lambda>t. if t < 1710054000000 then t - 5 * msPerHour else t - 4 * msPerHour),
      UTC = (\<lambda>t. if t < 1710054000000 - 4 * msPerHour then t + 5 * msPerHour
                 else t + 4 * msPerHour),
      toUpperCase = map ascii_upper, toLowerCase = map ascii_lower\<rparr>"

text \<open>A host in a time zone that keeps one offset from UTC all year.\<close>

definition fixed_offset :: "host \<Rightarrow> int \<Rightarrow> bool" where
  "fixed_offset h c = (\<forall>t. LocalTime h t = t + c \<and> UTC h t = t - c)"

text \<open>
  What every engine does on ASCII text: the case conversions change the letters
  \<^verbatim>\<open>a\<close> to \<^verbatim>\<open>z\<close> and \<^verbatim>\<open>A\<close> to \<^verbatim>\<open>Z\<close>, one character for one.
\<close>

definition ascii_case :: "host \<Rightarrow> bool" where
  "ascii_case h =
     (\<forall>s. ascii_only s \<longrightarrow>
          toUpperCase h s = map ascii_upper s \<and> toLowerCase h s = map ascii_lower s)"

section \<open>The calendar name\<close>

text \<open>
  The name of the calendar, lines 128 to 136 of \<^verbatim>\<open>generateICalForFeeds\<close>. The override
  is tested for truthiness, so an absent override and an empty one both give the
  derived name. The case of the letters is changed by the engine's own functions.
\<close>

definition titleCase :: "host \<Rightarrow> string \<Rightarrow> string" where
  "titleCase h word = toUpperCase h (charAt0 word) @ toLowerCase h (slice1 word)"

definition derivedName :: "host \<Rightarrow> string list \<Rightarrow> string" where
  "derivedName h calendarNames =
     ''Events for '' @
     join '' '' (map (titleCase h) (split CHR '' '' (join '' '' calendarNames)))"

definition calendar_name :: "host \<Rightarrow> string list \<Rightarrow> string option \<Rightarrow> string" where
  "calendar_name h calendarNames overrideCalendarName =
     (case overrideCalendarName of
        Some n \<Rightarrow> if n \<noteq> [] then n else derivedName h calendarNames
      | None \<Rightarrow> derivedName h calendarNames)"

section \<open>Events and the calendar\<close>

text \<open>
  An event as Action Network sends it. Of the fields of \<^verbatim>\<open>ActionNetworkEvent\<close> the
  program reads \<^verbatim>\<open>start_date\<close>, \<^verbatim>\<open>end_date\<close>, \<^verbatim>\<open>title\<close>,
  \<^verbatim>\<open>description\<close> and \<^verbatim>\<open>location.venue\<close>; all the others are the extension
  part of the record. The end date and the location can be missing from the payload
  (\<open>None\<close>).
\<close>

record location_record =
  venue :: string

record raw_event =
  start_date :: string
  end_date :: "string option"
  title :: string
  description :: string
  location :: "location_record option"

text \<open>The object handed to \<^verbatim>\<open>calendar.createEvent\<close>: the normalized event.\<close>

record event_data =
  ev_start :: "int option"
  ev_end :: "int option"
  ev_summary :: string
  ev_description :: string
  ev_location :: string

text \<open>
  The calendar of the ical-generator library, as far as the program drives it: made
  with a name by \<^verbatim>\<open>ical({ name })\<close>, and one entry added by each
  \<^verbatim>\<open>createEvent\<close>, which throws an error of its own when the start or the end it is
  given is an Invalid Date. The entries are kept as they are handed over; what the
  library does with them later is not part of the program.
\<close>

record calendar =
  cal_name :: string
  cal_events :: "event_data list"

definition ical :: "string \<Rightarrow> calendar" where
  "ical n = \<lparr>cal_name = n, cal_events = []\<rparr>"

definition createEvent :: "calendar \<Rightarrow> event_data \<Rightarrow> error + calendar" where
  "createEvent cal ev =
     (if ev_start ev = None \<or> ev_end ev = None then Inl CalendarError
      else Inr (cal\<lparr>cal_events := cal_events cal @ [ev]\<rparr>))"

text \<open>\<^verbatim>\<open>!event.end_date\<close>: a missing end date and an empty one are both falsy.\<close>

definition end_date_missing :: "'a raw_event_scheme \<Rightarrow> bool" where
  "end_date_missing event = (case end_date event of None \<Rightarrow> True | Some s \<Rightarrow> s = [])"

text \<open>
  Lines 142 to 146: the event object itself is written to, so the event after the step is
  returned.
\<close>

definition default_end_date :: "host \<Rightarrow> 'a raw_event_scheme \<Rightarrow> error + 'a raw_event_scheme" where
  "default_end_date h event =
     (if end_date_missing event then
        (let startDate = Date_parse h (start_date event);
             startDate2 = setHours h startDate (map_option (\<lambda>hr. hr + 2) (getHours h startDate))
         in case toISOString startDate2 of
              Inl e \<Rightarrow> Inl e
            | Inr s \<Rightarrow> Inr (event\<lparr>end_date := Some s\<rparr>))
      else Inr event)"

text \<open>
  Lines 148 to 154: \<^verbatim>\<open>event.location.venue\<close> throws a TypeError when the event has no
  location, before \<^verbatim>\<open>createEvent\<close> is called.
\<close>

definition new_Date :: "host \<Rightarrow> string option \<Rightarrow> int option" where
  "new_Date h v = (case v of None \<Rightarrow> None | Some s \<Rightarrow> Date_parse h s)"

definition event_data_of :: "host \<Rightarrow> 'a raw_event_scheme \<Rightarrow> error + event_data" where
  "event_data_of h event =
     (case location event of
        None \<Rightarrow> Inl TypeError
      | Some loc \<Rightarrow>
          Inr \<lparr>ev_start = new_Date h (Some (start_date event)),
               ev_end = new_Date h (end_date event),
               ev_summary = title event,
               ev_description = description event,
               ev_location = venue loc\<rparr>)"

section \<open>Looking a feed up in the registry\<close>

text \<open>
  \<^verbatim>\<open>API_KEYS\<close> is made by \<^verbatim>\<open>Object.fromEntries\<close>, an ordinary object, and
  \<^verbatim>\<open>API_KEYS[feed]\<close> is a property read: an own property gives its token, and a name
  that is not an own property is looked up in \<^verbatim>\<open>Object.prototype\<close>, whose members are
  functions (\<^verbatim>\<open>__proto__\<close> gives the prototype object itself). Any other name gives
  \<^verbatim>\<open>undefined\<close>.
\<close>

datatype js_value = Undefined | Str string | Inherited string

definition object_prototype_names :: "string list" where
  "object_prototype_names =
     [''constructor'', ''hasOwnProperty'', ''isPrototypeOf'', ''propertyIsEnumerable'',
      ''toLocaleString'', ''toString'', ''valueOf'', ''__proto__'', ''__defineGetter__'',
      ''__defineSetter__'', ''__lookupGetter__'', ''__lookupSetter__'']"

definition get_property :: "api_keys \<Rightarrow> string \<Rightarrow> js_value" where
  "get_property keys k =
     (case map_of keys k of
        Some v \<Rightarrow> Str v
      | None \<Rightarrow> if k \<in> set object_prototype_names then Inherited k else Undefined)"

fun truthy :: "js_value \<Rightarrow> bool" where
  "truthy Undefined = False"
| "truthy (Str s) = (s \<noteq> [])"
| "truthy (Inherited k) = True"

section \<open>Fetching the pages of one feed\<close>

text \<open>
  What \<^verbatim>\<open>response.json()\<close> gives, as far as the loop reads it: \<^verbatim>\<open>_embedded\<close> with
  its \<^verbatim>\<open>osdi:events\<close>, and \<^verbatim>\<open>_links\<close> with the address of the next page. Each of
  them can be missing from the payload.
\<close>

record 'e embedded_record =
  osdi_events :: "'e list option"

record links_record =
  next_href :: "string option"

record 'e event_list =
  embedded :: "'e embedded_record option"
  links :: "links_record option"

datatype 'e body = NotJson | Json "'e event_list"

text \<open>
  The outcome of one \<^verbatim>\<open>fetch\<close>: the request fails on the network, or a response
  arrives with a status and a body. The loop never reads the status.
\<close>

datatype 'e fetch_result = NetworkFailure | Response nat "'e body"

record request =
  req_url :: string
  req_filter :: string
  req_token :: js_value

definition make_request :: "string \<Rightarrow> int \<Rightarrow> js_value \<Rightarrow> request" where
  "make_request url now token =
     \<lparr>req_url = url,
      req_filter = ''start_date gt '' @ [CHR 0x27] @ iso_string now @ [CHR 0x27],
      req_token = token\<rparr>"

text \<open>
  One turn of the loop, from the answer of \<^verbatim>\<open>fetch\<close> to the test of the next link
  (lines 182 to 194): the batch of the page and the address of the next one, or the
  exception thrown on the way. \<^verbatim>\<open>fetch\<close> rejects when the network fails,
  \<^verbatim>\<open>response.json()\<close> when the body is not JSON, and reading \<^verbatim>\<open>osdi:events\<close> of a
  missing \<^verbatim>\<open>_embedded\<close>, spreading a missing \<^verbatim>\<open>osdi:events\<close> and reading
  \<^verbatim>\<open>next\<close> of a missing \<^verbatim>\<open>_links\<close> each throw a TypeError.
\<close>

definition read_page :: "'e fetch_result \<Rightarrow> error + ('e list \<times> string option)" where
  "read_page r =
     (case r of
        NetworkFailure \<Rightarrow> Inl FetchFailed
      | Response status b \<Rightarrow>
          (case b of
             NotJson \<Rightarrow> Inl SyntaxError
           | Json data \<Rightarrow>
               (case embedded data of
                  None \<Rightarrow> Inl TypeError
                | Some emb \<Rightarrow>
                    (case osdi_events emb of
                       None \<Rightarrow> Inl TypeError
                     | Some batch \<Rightarrow>
                         (case links data of
                            None \<Rightarrow> Inl TypeError
                          | Some l \<Rightarrow> Inr (batch, next_href l))))))"

text \<open>
  The loop of \<^verbatim>\<open>fetchAllEventsForCalendar\<close>. The network is the list of outcomes the
  successive requests of this call meet, and the clock gives the time read before the
  k-th request. When the list is used up the request is still sent, and its answer
  never comes: the call does not return (\<open>None\<close>). The second component is the list of
  requests sent.
\<close>

fun fetch_loop ::
  "js_value \<Rightarrow> (nat \<Rightarrow> int) \<Rightarrow> string \<Rightarrow> 'e list \<Rightarrow> request list \<Rightarrow> 'e fetch_result list \<Rightarrow>
   (error + 'e list) option \<times> request list" where
  "fetch_loop token clock url events sent [] =
     (None, sent @ [make_request url (clock (length sent)) token])"
| "fetch_loop token clock url events sent (r # net) =
     (let sent2 = sent @ [make_request url (clock (length sent)) token] in
      case read_page r of
        Inl e \<Rightarrow> (Some (Inl e), sent2)
      | Inr (batch, next_link) \<Rightarrow>
          (case next_link of
             Some href \<Rightarrow> fetch_loop token clock href (events @ batch) sent2 net
           | None \<Rightarrow> (Some (Inr (events @ batch)), sent2)))"

definition events_url :: string where
  "events_url = ''https://actionnetwork.org/api/v2/events''"

definition fetchAllEventsForCalendar ::
  "api_keys \<Rightarrow> (nat \<Rightarrow> int) \<Rightarrow> 'e fetch_result list \<Rightarrow> string \<Rightarrow>
   (error + 'e list) option \<times> request list" where
  "fetchAllEventsForCalendar keys clock net calendarName =
     fetch_loop (get_property keys calendarName) clock events_url [] [] net"

section \<open>The loop over the events\<close>

text \<open>
  The callback of \<^verbatim>\<open>flattened.forEach\<close>, on one event (lines 140 to 155), with
  everything it leaves behind up to the call of \<^verbatim>\<open>createEvent\<close>: the object it
  hands over or the exception it throws before, the raw event as it is afterwards, and
  the requests sent upstream so far. When \<^verbatim>\<open>toISOString\<close> throws, the assignment of line 145 has not
  happened; when the location is missing, it has, and the exception comes after it. The
  callback calls neither \<^verbatim>\<open>fetch\<close> nor anything else that leaves the process, so
  the requests are handed through.
\<close>

definition forEach_callback ::
  "host \<Rightarrow> 'a raw_event_scheme \<Rightarrow> request list \<Rightarrow>
   (error + event_data) \<times> 'a raw_event_scheme \<times> request list" where
  "forEach_callback h event sent =
     (case default_end_date h event of
        Inl e \<Rightarrow> (Inl e, event, sent)
      | Inr event2 \<Rightarrow> (event_data_of h event2, event2, sent))"

text \<open>
  What the callback gives when nothing is thrown before \<^verbatim>\<open>createEvent\<close> is called:
  the normalized event and the raw event as it is afterwards.
\<close>

definition normalize_event ::
  "host \<Rightarrow> 'a raw_event_scheme \<Rightarrow> error + (event_data \<times> 'a raw_event_scheme)" where
  "normalize_event h event =
     (case forEach_callback h event [] of
        (Inl e, event2, sent) \<Rightarrow> Inl e
      | (Inr ev, event2, sent) \<Rightarrow> Inr (ev, event2))"

text \<open>
  \<^verbatim>\<open>flattened.forEach\<close>: the first exception ends the loop. The result is the calendar
  and the events as the loop leaves them.
\<close>

fun forEach ::
  "host \<Rightarrow> calendar \<Rightarrow> 'a raw_event_scheme list \<Rightarrow> error + (calendar \<times> 'a raw_event_scheme list)" where
  "forEach h cal [] = Inr (cal, [])"
| "forEach h cal (event # rest) =
     (case normalize_event h event of
        Inl e \<Rightarrow> Inl e
      | Inr (ev, event2) \<Rightarrow>
          (case createEvent cal ev of
             Inl e \<Rightarrow> Inl e
           | Inr cal1 \<Rightarrow>
               (case forEach h cal1 rest of
                  Inl e \<Rightarrow> Inl e
                | Inr (cal2, rest2) \<Rightarrow> Inr (cal2, event2 # rest2))))"

section \<open>All feeds at once\<close>

text \<open>
  \<^verbatim>\<open>Promise.all\<close> over promises that settle one after the other, each at most once:
  it is given how many there are and the settlements in the order they happen (which
  promise, and with what). It fulfils with the values in the order of the promises once
  each has one, rejects with the first rejection, and stays pending (\<open>None\<close>) otherwise.
\<close>

fun promise_all_run ::
  "'a option list \<Rightarrow> (nat \<times> (error + 'a)) list \<Rightarrow> (error + 'a list) option" where
  "promise_all_run vals [] =
     (if list_all (\<lambda>v. v \<noteq> None) vals then Some (Inr (map the vals)) else None)"
| "promise_all_run vals ((i, r) # rest) =
     (if list_all (\<lambda>v. v \<noteq> None) vals then Some (Inr (map the vals))
      else (case r of
              Inl e \<Rightarrow> Some (Inl e)
            | Inr v \<Rightarrow> promise_all_run (vals[i := Some v]) rest))"

definition promise_all :: "nat \<Rightarrow> (nat \<times> (error + 'a)) list \<Rightarrow> (error + 'a list) option" where
  "promise_all n ss = promise_all_run (replicate n None) ss"

text \<open>
  The world one request to the events endpoint runs in: for the i-th feed of the
  selection, the clock and the network its fetch meets, and the order in which the
  fetches that return do so.
\<close>

record 'e world =
  clock_of :: "nat \<Rightarrow> nat \<Rightarrow> int"
  network_of :: "nat \<Rightarrow> 'e fetch_result list"
  completion :: "nat list"

definition fetch_task ::
  "api_keys \<Rightarrow> 'e world \<Rightarrow> string list \<Rightarrow> nat \<Rightarrow> (error + 'e list) option \<times> request list" where
  "fetch_task keys w calendarNames i =
     fetchAllEventsForCalendar keys (clock_of w i) (network_of w i) (calendarNames ! i)"

definition settlements ::
  "api_keys \<Rightarrow> 'e world \<Rightarrow> string list \<Rightarrow> (nat \<times> (error + 'e list)) list" where
  "settlements keys w calendarNames =
     List.map_filter
       (\<lambda>i. if i < length calendarNames
            then map_option (Pair i) (fst (fetch_task keys w calendarNames i)) else None)
       (completion w)"

text \<open>Lines 122 to 126: \<^verbatim>\<open>allEvents\<close>, flattened.\<close>

definition fetch_flattened ::
  "api_keys \<Rightarrow> 'e world \<Rightarrow> string list \<Rightarrow> (error + 'e list) option" where
  "fetch_flattened keys w calendarNames =
     (case promise_all (length calendarNames) (settlements keys w calendarNames) of
        None \<Rightarrow> None
      | Some (Inl e) \<Rightarrow> Some (Inl e)
      | Some (Inr allEvents) \<Rightarrow> Some (Inr (concat allEvents)))"

definition generateICalForFeeds ::
  "host \<Rightarrow> api_keys \<Rightarrow> ('a raw_event_scheme) world \<Rightarrow> string list \<Rightarrow> string option \<Rightarrow>
   (error + calendar) option" where
  "generateICalForFeeds h keys w calendarNames overrideCalendarName =
     (case fetch_flattened keys w calendarNames of
        None \<Rightarrow> None
      | Some (Inl e) \<Rightarrow> Some (Inl e)
      | Some (Inr flattened) \<Rightarrow>
          (let calendar = ical (calendar_name h calendarNames overrideCalendarName) in
           case forEach h calendar flattened of
             Inl e \<Rightarrow> Some (Inl e)
           | Inr (calendar2, flattened2) \<Rightarrow> Some (Inr calendar2)))"

section \<open>The events endpoint\<close>

text \<open>
  What the handler gives back: a text response with a status, the calendar served as
  \<^verbatim>\<open>text/calendar\<close>, an exception it does not catch, or nothing when it never returns.
\<close>

datatype response = Text nat string | Calendar calendar | Uncaught error | Never

definition all_requests :: "api_keys \<Rightarrow> 'e world \<Rightarrow> string list \<Rightarrow> request list" where
  "all_requests keys w feeds = concat (map (\<lambda>i. snd (fetch_task keys w feeds i)) [0..<length feeds])"

text \<open>
  The handler of \<^verbatim>\<open>/events\<close>, with the requests sent upstream while it runs (feed by
  feed). \<^verbatim>\<open>c.req.queries("feed")\<close> is \<open>None\<close> when the query has no \<^verbatim>\<open>feed\<close>.
\<close>

definition events_handler ::
  "host \<Rightarrow> api_keys \<Rightarrow> ('a raw_event_scheme) world \<Rightarrow> string option \<Rightarrow> string list option \<Rightarrow>
   response \<times> request list" where
  "events_handler h keys w nameOverride feeds =
     (case feeds of
        None \<Rightarrow> (Text 400 ''No feed query parameters provided.'', [])
      | Some fs \<Rightarrow>
          (case find (\<lambda>feed. \<not> truthy (get_property keys feed)) fs of
             Some feed \<Rightarrow> (Text 400 (''Feed '' @ feed @ '' is not configured in API keys.''), [])
           | None \<Rightarrow>
               (case generateICalForFeeds h keys w fs nameOverride of
                  None \<Rightarrow> Never
                | Some (Inl e) \<Rightarrow> Uncaught e
                | Some (Inr calendar) \<Rightarrow> Calendar calendar,
                all_requests keys w fs)))"

section \<open>Well-formed pages\<close>

text \<open>A page of the shape \<^verbatim>\<open>ActionNetworkEventList\<close> describes, with or without a next link.\<close>

definition page :: "'e list \<Rightarrow> string option \<Rightarrow> 'e event_list" where
  "page batch next_link =
     \<lparr>embedded = Some \<lparr>osdi_events = Some batch\<rparr>, links = Some \<lparr>next_href = next_link\<rparr>\<rparr>"

text \<open>The answer that carries a page which is not the last: a status, a batch, a next address.\<close>

definition inner_page :: "nat \<times> 'e list \<times> string \<Rightarrow> 'e fetch_result" where
  "inner_page p = (case p of (status, batch, href) \<Rightarrow> Response status (Json (page batch (Some href))))"

definition last_page :: "nat \<Rightarrow> 'e list \<Rightarrow> 'e fetch_result" where
  "last_page status batch = Response status (Json (page batch None))"

text \<open>
  The requests of one call that asks for the addresses \<open>urls\<close> in turn, the first of
  them being its k-th request.
\<close>

definition requests_from :: "js_value \<Rightarrow> (nat \<Rightarrow> int) \<Rightarrow> nat \<Rightarrow> string list \<Rightarrow> request list" where
  "requests_from token clock k urls =
     map (\<lambda>(j, url). make_request url (clock j) token) (enumerate k urls)"

section \<open>Sample events\<close>

text \<open>An event that starts on 2024-06-01 at 10:00 UTC and comes without an end date.\<close>

definition june_event :: raw_event where
  "june_event =
     \<lparr>start_date = ''2024-06-01T10:00:00Z'', end_date = None, title = ''Canvass'',
      description = ''Door knocking'', location = Some \<lparr>venue = ''Town hall''\<rparr>\<rparr>"

definition event_titled :: "string \<Rightarrow> raw_event" where
  "event_titled t = june_event\<lparr>title := t\<rparr>"

section \<open>Sample registries and worlds\<close>

definition sample_keys :: api_keys where
  "sample_keys = [(''TEAM_A'', ''key-a''), (''TEAM_B'', ''key-b'')]"

text \<open>
  Two feeds are asked for. The first has two pages and the second has one, and the fetch
  of the second returns before the fetch of the first.
\<close>

definition slow_fast_world :: "raw_event world" where
  "slow_fast_world =
     \<lparr>clock_of = (\<lambda>i k. 1717000000000),
      network_of = (\<lambda>i. if i = 0
                          then [inner_page (200, [event_titled ''a1''], ''https://actionnetwork.org/api/v2/events?page=2''),
                                last_page 200 [event_titled ''a2'']]
                          else [last_page 200 [event_titled ''b1'']]),
      completion = [1, 0]\<rparr>"

text \<open>Every request is answered by the same outcome, and the fetches return in the order of the feeds.\<close>

definition constant_world :: "'e fetch_result \<Rightarrow> 'e world" where
  "constant_world r =
     \<lparr>clock_of = (\<lambda>i k. 1717000000000), network_of = (\<lambda>i. [r]), completion = [0, 1]\<rparr>"

text \<open>The body of an error answer: JSON with neither \<^verbatim>\<open>_embedded\<close> nor \<^verbatim>\<open>_links\<close>.\<close>

definition error_body :: "'e body" where
  "error_body = Json \<lparr>embedded = None, links = None\<rparr>"

section \<open>Facts about strings\<close>

lemma split_no_sep: "c \<notin> set w \<Longrightarrow> split c w = [w]"
  by (induction w) auto

lemma split_append_sep:
  "c \<notin> set w \<Longrightarrow> split c (w @ c # rest) = w # split c rest"
  by (induction w) auto

lemma split_join_Cons:
  "\<forall>v \<in> set (w # ws). c \<notin> set v \<Longrightarrow> split c (join [c] (w # ws)) = w # ws"
proof (induction ws arbitrary: w)
  case Nil
  then show ?case by (simp add: split_no_sep)
next
  case (Cons v ws)
  then have "split c (join [c] (v # ws)) = v # ws" by simp
  with Cons.prems show ?case by (simp add: split_append_sep)
qed

lemma split_join:
  "ws \<noteq> [] \<Longrightarrow> \<forall>w \<in> set ws. c \<notin> set w \<Longrightarrow> split c (join [c] ws) = ws"
  using split_join_Cons [of _ _ c] by (cases ws) auto

section \<open>The derived calendar name\<close>

lemma titleCase_ascii:
  assumes "ascii_case h" and "ascii_only (c # cs)"
  shows "titleCase h (c # cs) = ascii_upper c # map ascii_lower cs"
proof -
  from assms(2) have "ascii_only [c]" and "ascii_only cs"
    by (simp_all add: ascii_only_def)
  with assms(1) have "toUpperCase h [c] = [ascii_upper c]" and "toLowerCase h cs = map ascii_lower cs"
    by (simp_all add: ascii_case_def)
  then show ?thesis by (simp add: titleCase_def charAt0_def slice1_def)
qed

lemma derivedName_no_space:
  assumes "\<forall>feed \<in> set calendarNames. CHR '' '' \<notin> set feed"
  shows "derivedName h calendarNames =
           ''Events for '' @ join '' '' (map (titleCase h) (if calendarNames = [] then [[]] else calendarNames))"
proof (cases "calendarNames = []")
  case True
  then show ?thesis by (simp add: derivedName_def)
next
  case False
  with assms have "split CHR '' '' (join '' '' calendarNames) = calendarNames"
    using split_join [of calendarNames "CHR '' ''"] by simp
  with False show ?thesis by (simp add: derivedName_def)
qed

lemma ascii_case_utc_host: "ascii_case utc_host"
  by (simp add: ascii_case_def utc_host_def)

text \<open>
  C6, as the program has it. With no name override (none given, or an empty one), and
  at least one feed identifier, none of which contains a space, the name of the calendar
  is \<^verbatim>\<open>Events for\<close> followed by the identifiers joined with single spaces, each
  title-cased: its first character put in upper case and all its other characters in
  lower case by the engine's \<^verbatim>\<open>toUpperCase\<close> and \<^verbatim>\<open>toLowerCase\<close>, with no new
  word after an underscore. On ASCII identifiers, where every engine changes the case
  letter by letter, \<^verbatim>\<open>team_a\<close> becomes \<^verbatim>\<open>Team_a\<close>, and the selection
  \<^verbatim>\<open>["TEAM_A","TEAM_B"]\<close> is named \<^verbatim>\<open>Events for Team_a Team_b\<close>.
\<close>

theorem calendar_name_derived:
  assumes "overrideCalendarName = None \<or> overrideCalendarName = Some []"
    and "calendarNames \<noteq> []"
    and "\<forall>feed \<in> set calendarNames. CHR '' '' \<notin> set feed"
  shows "calendar_name h calendarNames overrideCalendarName =
           ''Events for '' @ join '' '' (map (titleCase h) calendarNames) \<and>
         (\<forall>word. titleCase h word = toUpperCase h (take 1 word) @ toLowerCase h (drop 1 word)) \<and>
         (ascii_case h \<longrightarrow>
            (\<forall>c cs. ascii_only (c # cs) \<longrightarrow>
                    titleCase h (c # cs) = ascii_upper c # map ascii_lower cs) \<and>
            titleCase h ''team_a'' = ''Team_a'' \<and>
            calendar_name h [''TEAM_A'', ''TEAM_B''] overrideCalendarName =
              ''Events for Team_a Team_b'')"
proof -
  have a: "calendar_name h ns overrideCalendarName = derivedName h ns" for ns
    using assms(1) by (auto simp: calendar_name_def)
  have first: "calendar_name h calendarNames overrideCalendarName =
           ''Events for '' @ join '' '' (map (titleCase h) calendarNames)"
    using a derivedName_no_space [OF assms(3), of h] assms(2) by simp
  have second: "titleCase h word = toUpperCase h (take 1 word) @ toLowerCase h (drop 1 word)"
    for word by (simp add: titleCase_def charAt0_def slice1_def)
  have third: "(\<forall>c cs. ascii_only (c # cs) \<longrightarrow>
                    titleCase h (c # cs) = ascii_upper c # map ascii_lower cs) \<and>
            titleCase h ''team_a'' = ''Team_a'' \<and>
            calendar_name h [''TEAM_A'', ''TEAM_B''] overrideCalendarName =
              ''Events for Team_a Team_b''"
    if ac: "ascii_case h"
  proof -
    have t: "titleCase h (c # cs) = ascii_upper c # map ascii_lower cs"
      if "ascii_only (c # cs)" for c cs
      using ac that by (rule titleCase_ascii)
    have o1: "ascii_only ''team_a''" and o2: "ascii_only ''TEAM_A''" and o3: "ascii_only ''TEAM_B''"
      by (simp_all add: ascii_only_def)
    have u1: "ascii_upper CHR ''t'' # map ascii_lower ''eam_a'' = ''Team_a''"
      by code_simp
    have u2: "ascii_upper CHR ''T'' # map ascii_lower ''EAM_A'' = ''Team_a''"
      by code_simp
    have u3: "ascii_upper CHR ''T'' # map ascii_lower ''EAM_B'' = ''Team_b''"
      by code_simp
    have b: "titleCase h ''team_a'' = ''Team_a''"
      using t [OF o1] u1 by simp
    have "\<forall>feed \<in> set [''TEAM_A'', ''TEAM_B'']. CHR '' '' \<notin> set feed" by simp
    from derivedName_no_space [OF this, of h]
    have "derivedName h [''TEAM_A'', ''TEAM_B''] =
            ''Events for '' @ join '' '' [titleCase h ''TEAM_A'', titleCase h ''TEAM_B'']"
      by simp
    also have "\<dots> = ''Events for Team_a Team_b''"
      using t [OF o2] t [OF o3] u2 u3 by simp
    finally have c: "calendar_name h [''TEAM_A'', ''TEAM_B''] overrideCalendarName =
              ''Events for Team_a Team_b''"
      by (simp add: a)
    from t b c show ?thesis by blast
  qed
  from first second third show ?thesis by blast
qed

theorem calendar_name_derived_witness:
  "calendar_name utc_host [''north'', ''SOUTH_2''] None = ''Events for North South_2'' \<and>
   calendar_name utc_host [''TEAM_A'', ''TEAM_B''] None = ''Events for Team_a Team_b''"
proof -
  have 1: "[''north'', ''SOUTH_2''] \<noteq> []" by simp
  have 2: "\<forall>feed \<in> set [''north'', ''SOUTH_2'']. CHR '' '' \<notin> set feed" by simp
  from calendar_name_derived [of None, OF _ 1 2, of utc_host] ascii_case_utc_host
  have a: "calendar_name utc_host [''north'', ''SOUTH_2''] None =
          ''Events for '' @ join '' '' (map (titleCase utc_host) [''north'', ''SOUTH_2''])"
    and b: "calendar_name utc_host [''TEAM_A'', ''TEAM_B''] None = ''Events for Team_a Team_b''"
    by simp_all
  have "''Events for '' @ join '' '' (map (titleCase utc_host) [''north'', ''SOUTH_2'']) =
          ''Events for North South_2''"
    by code_simp
  with a b show ?thesis by simp
qed

text \<open>
  C6 as it is worded names \<^verbatim>\<open>Events for Team_A Team_B\<close> for the selection
  \<^verbatim>\<open>["TEAM_A","TEAM_B"]\<close>; the program lowers the letters after the underscore.
\<close>

theorem calendar_name_counterexample:
  "calendar_name utc_host [''TEAM_A'', ''TEAM_B''] None = ''Events for Team_a Team_b'' \<and>
   calendar_name utc_host [''TEAM_A'', ''TEAM_B''] None \<noteq> ''Events for Team_A Team_B''"
  by code_simp

section \<open>The directory listing\<close>

text \<open>
  C9, as the program has it. For a registry with at least one identifier, none of which
  contains a line break, the body of the directory response has exactly one line for
  each identifier, in the order of the registry; each line is a hyphen, a space and the
  identifier, and no line is empty.
\<close>

theorem directory_lines:
  assumes "keys \<noteq> []" and "\<forall>k \<in> set (object_keys keys). CHR 0x0A \<notin> set k"
  shows "split (CHR 0x0A) (directory keys) = map (\<lambda>k. ''- '' @ k) (object_keys keys) \<and>
         length (split (CHR 0x0A) (directory keys)) = length keys \<and>
         [] \<notin> set (split (CHR 0x0A) (directory keys))"
proof -
  let ?ls = "map (\<lambda>k. ''- '' @ k) (object_keys keys)"
  have "?ls \<noteq> []" using assms(1) by (simp add: object_keys_def)
  moreover have "\<forall>l \<in> set ?ls. CHR 0x0A \<notin> set l" using assms(2) by auto
  ultimately have "split (CHR 0x0A) (join [CHR 0x0A] ?ls) = ?ls" by (rule split_join)
  then have eq: "split (CHR 0x0A) (directory keys) = ?ls" by (simp add: directory_def)
  show ?thesis unfolding eq by (auto simp: object_keys_def)
qed

theorem directory_lines_witness:
  "split (CHR 0x0A) (directory [(''TEAM_A'', ''k1''), (''TEAM_B'', ''k2'')]) =
     [''- TEAM_A'', ''- TEAM_B'']"
  using directory_lines [of "[(''TEAM_A'', ''k1''), (''TEAM_B'', ''k2'')]"]
  by (simp add: object_keys_def)

text \<open>
  C9 as it is worded allows nothing on a line but the identifier; the program writes
  a hyphen and a space before it.
\<close>

theorem directory_counterexample:
  "directory [(''TEAM_A'', ''k1''), (''TEAM_B'', ''k2'')] = ''- TEAM_A'' @ [CHR 0x0A] @ ''- TEAM_B'' \<and>
   directory [(''TEAM_A'', ''k1''), (''TEAM_B'', ''k2'')] \<noteq> ''TEAM_A'' @ [CHR 0x0A] @ ''TEAM_B''"
  by (simp add: directory_def object_keys_def)

section \<open>Facts about dates\<close>

lemma time_fields:
  "MakeDate (Day t) (MakeTime (HourFromTime t) (MinFromTime t) (SecFromTime t) (msFromTime t)) = t"
proof -
  define a where "a = t div 1000"
  define b where "b = a div 60"
  define c where "c = b div 60"
  have b: "t div 60000 = b"
    unfolding a_def b_def using zdiv_zmult2_eq [of 60 t 1000] by simp
  have c: "t div 3600000 = c"
    unfolding c_def b [symmetric] using zdiv_zmult2_eq [of 60 t 60000] by simp
  have d: "t div 86400000 = c div 24"
    unfolding c [symmetric] using zdiv_zmult2_eq [of 24 t 3600000] by simp
  have 1: "t = 1000 * a + t mod 1000" unfolding a_def by simp
  have 2: "a = 60 * b + a mod 60" unfolding b_def by simp
  have 3: "b = 60 * c + b mod 60" unfolding c_def by simp
  have 4: "c = 24 * (c div 24) + c mod 24" by simp
  have "(c div 24) * 86400000 + (c mod 24 * 3600000 + b mod 60 * 60000 + a mod 60 * 1000 + t mod 1000) = t"
    using 1 2 3 4 by linarith
  then show ?thesis
    by (simp add: MakeDate_def MakeTime_def Day_def HourFromTime_def MinFromTime_def
        SecFromTime_def msFromTime_def msPerDay_def msPerHour_def msPerMinute_def msPerSecond_def
        a_def [symmetric] b c d)
qed

text \<open>
  \<^verbatim>\<open>d.setHours(d.getHours() + k)\<close> moves the local time of a valid date by k hours and
  reads the result back in the zone of the host.
\<close>

lemma setHours_plus:
  "setHours h (Some t) (map_option (\<lambda>hr. hr + k) (getHours h (Some t))) =
     TimeClip (UTC h (LocalTime h t + k * msPerHour))"
proof -
  let ?l = "LocalTime h t"
  have "MakeDate (Day ?l) (MakeTime (HourFromTime ?l + k) (MinFromTime ?l) (SecFromTime ?l) (msFromTime ?l))
        = MakeDate (Day ?l) (MakeTime (HourFromTime ?l) (MinFromTime ?l) (SecFromTime ?l) (msFromTime ?l))
          + k * msPerHour"
    by (simp add: MakeDate_def MakeTime_def algebra_simps)
  then show ?thesis
    by (simp add: setHours_def getHours_def time_fields)
qed

lemma iso_string_not_Nil: "iso_string t \<noteq> []"
  by (simp add: iso_string_def split: prod.splits)

lemma fixed_offset_utc_host: "fixed_offset utc_host 0"
  by (simp add: fixed_offset_def utc_host_def)

lemma parse_june_10: "Date_parse utc_host ''2024-06-01T10:00:00Z'' = Some 1717236000000"
  unfolding utc_host_def by (simp, code_simp)

lemma parse_june_12: "Date_parse utc_host ''2024-06-01T12:00:00.000Z'' = Some 1717243200000"
  unfolding utc_host_def by (simp, code_simp)

lemma iso_june_12: "iso_string 1717243200000 = ''2024-06-01T12:00:00.000Z''"
  by code_simp

section \<open>Facts about the end date\<close>

lemma normalize_event_unfold:
  "normalize_event h event =
     (case default_end_date h event of
        Inl e \<Rightarrow> Inl e
      | Inr event2 \<Rightarrow>
          (case event_data_of h event2 of
             Inl e \<Rightarrow> Inl e
           | Inr ev \<Rightarrow> Inr (ev, event2)))"
  by (simp add: normalize_event_def forEach_callback_def split: sum.splits)

lemma default_end_date_present:
  "\<not> end_date_missing event \<Longrightarrow> default_end_date h event = Inr event"
  by (simp add: default_end_date_def)

lemma default_end_date_missing:
  assumes "end_date_missing event" and "Date_parse h (start_date event) = Some t"
    and "u = UTC h (LocalTime h t + 2 * msPerHour)" and "\<bar>u\<bar> \<le> 8640000000000000"
  shows "default_end_date h event = Inr (event\<lparr>end_date := Some (iso_string u)\<rparr>)"
  using assms
  by (simp add: default_end_date_def Let_def setHours_plus TimeClip_def toISOString_def)

lemma default_end_date_invalid_start:
  assumes "end_date_missing event" and "Date_parse h (start_date event) = None"
  shows "default_end_date h event = Inl RangeError"
  using assms
  by (simp add: default_end_date_def Let_def setHours_def getHours_def toISOString_def)

lemma default_end_date_cases:
  assumes r: "default_end_date h event = Inr event2"
  shows "(\<not> end_date_missing event \<and> event2 = event) \<or>
     (end_date_missing event \<and>
      (\<exists>t. Date_parse h (start_date event) = Some t \<and>
           \<bar>UTC h (LocalTime h t + 2 * msPerHour)\<bar> \<le> 8640000000000000 \<and>
           event2 = event\<lparr>end_date := Some (iso_string (UTC h (LocalTime h t + 2 * msPerHour)))\<rparr>))"
proof (cases "end_date_missing event")
  case False
  with r show ?thesis by (simp add: default_end_date_def)
next
  case True
  show ?thesis
  proof (cases "Date_parse h (start_date event)")
    case None
    with True r show ?thesis by (simp add: default_end_date_invalid_start)
  next
    case (Some t)
    with True r show ?thesis
      by (auto simp: default_end_date_def Let_def setHours_plus TimeClip_def toISOString_def
          split: if_splits)
  qed
qed

lemma normalize_event_Inr:
  assumes "normalize_event h event = Inr (ev, event2)"
  shows "default_end_date h event = Inr event2 \<and> event_data_of h event2 = Inr ev"
  using assms by (auto simp: normalize_event_unfold split: sum.splits)

text \<open>
  C1, as the program has it. On a host whose time zone keeps one offset from UTC (a
  server on UTC, for one), for every raw event with a location whose end date is
  missing or empty and whose start date is read as a valid time t, no later than two
  hours before the last time a Date can hold: the event handed to the calendar ends at
  t plus 7200000 milliseconds, and the end date of the raw event is set to the ISO
  string of that time (the host reading its own ISO strings back). A start of
  2024-06-01T10:00:00Z gives an end of 2024-06-01T12:00:00Z. For every raw event with a
  location and an end date that is not empty, the raw event is left as it is and the
  end handed to the calendar is that end date as the host reads it.
\<close>

theorem normalize_end:
  fixes event :: "'a raw_event_scheme"
  assumes "location event = Some loc"
  shows "(end_date_missing event \<and> fixed_offset h c \<and> Date_parse h (start_date event) = Some t \<and>
          \<bar>t + 2 * msPerHour\<bar> \<le> 8640000000000000 \<and>
          Date_parse h (iso_string (t + 2 * msPerHour)) = Some (t + 2 * msPerHour) \<longrightarrow>
            normalize_event h event =
              Inr (\<lparr>ev_start = Some t, ev_end = Some (t + 2 * msPerHour), ev_summary = title event,
                    ev_description = description event, ev_location = venue loc\<rparr>,
                   event\<lparr>end_date := Some (iso_string (t + 2 * msPerHour))\<rparr>)) \<and>
         (\<not> end_date_missing event \<longrightarrow>
            normalize_event h event =
              Inr (\<lparr>ev_start = Date_parse h (start_date event),
                    ev_end = Date_parse h (the (end_date event)), ev_summary = title event,
                    ev_description = description event, ev_location = venue loc\<rparr>,
                   event))"
proof (intro conjI impI)
  assume a: "end_date_missing event \<and> fixed_offset h c \<and> Date_parse h (start_date event) = Some t \<and>
          \<bar>t + 2 * msPerHour\<bar> \<le> 8640000000000000 \<and>
          Date_parse h (iso_string (t + 2 * msPerHour)) = Some (t + 2 * msPerHour)"
  then have u: "UTC h (LocalTime h t + 2 * msPerHour) = t + 2 * msPerHour"
    by (simp add: fixed_offset_def)
  from a have "default_end_date h event = Inr (event\<lparr>end_date := Some (iso_string (t + 2 * msPerHour))\<rparr>)"
    using default_end_date_missing [of event h t "t + 2 * msPerHour"] u by simp
  with a assms show "normalize_event h event =
              Inr (\<lparr>ev_start = Some t, ev_end = Some (t + 2 * msPerHour), ev_summary = title event,
                    ev_description = description event, ev_location = venue loc\<rparr>,
                   event\<lparr>end_date := Some (iso_string (t + 2 * msPerHour))\<rparr>)"
    by (simp add: normalize_event_unfold event_data_of_def new_Date_def)
next
  assume a: "\<not> end_date_missing event"
  then obtain s where "end_date event = Some s"
    by (auto simp: end_date_missing_def split: option.splits)
  with a assms show "normalize_event h event =
              Inr (\<lparr>ev_start = Date_parse h (start_date event),
                    ev_end = Date_parse h (the (end_date event)), ev_summary = title event,
                    ev_description = description event, ev_location = venue loc\<rparr>,
                   event)"
    by (simp add: normalize_event_unfold default_end_date_present event_data_of_def new_Date_def)
qed

theorem normalize_end_witness:
  "normalize_event utc_host june_event =
     Inr (\<lparr>ev_start = Some 1717236000000, ev_end = Some 1717243200000, ev_summary = ''Canvass'',
           ev_description = ''Door knocking'', ev_location = ''Town hall''\<rparr>,
          june_event\<lparr>end_date := Some ''2024-06-01T12:00:00.000Z''\<rparr>) \<and>
   normalize_event utc_host (june_event\<lparr>end_date := Some ''2024-06-01T11:30:00Z''\<rparr>) =
     Inr (\<lparr>ev_start = Some 1717236000000, ev_end = Some 1717241400000, ev_summary = ''Canvass'',
           ev_description = ''Door knocking'', ev_location = ''Town hall''\<rparr>,
          june_event\<lparr>end_date := Some ''2024-06-01T11:30:00Z''\<rparr>)"
proof -
  have p: "Date_parse utc_host ''2024-06-01T11:30:00Z'' = Some 1717241400000"
    unfolding utc_host_def by (simp, code_simp)
  from normalize_end [of june_event "\<lparr>venue = ''Town hall''\<rparr>" utc_host 0 1717236000000]
  have a: "normalize_event utc_host june_event =
     Inr (\<lparr>ev_start = Some 1717236000000, ev_end = Some 1717243200000, ev_summary = ''Canvass'',
           ev_description = ''Door knocking'', ev_location = ''Town hall''\<rparr>,
          june_event\<lparr>end_date := Some ''2024-06-01T12:00:00.000Z''\<rparr>)"
    by (simp add: june_event_def end_date_missing_def fixed_offset_utc_host parse_june_10
        iso_june_12 parse_june_12 msPerHour_def)
  from normalize_end [of "june_event\<lparr>end_date := Some ''2024-06-01T11:30:00Z''\<rparr>"
      "\<lparr>venue = ''Town hall''\<rparr>" utc_host]
  have b: "normalize_event utc_host (june_event\<lparr>end_date := Some ''2024-06-01T11:30:00Z''\<rparr>) =
     Inr (\<lparr>ev_start = Some 1717236000000, ev_end = Some 1717241400000, ev_summary = ''Canvass'',
           ev_description = ''Door knocking'', ev_location = ''Town hall''\<rparr>,
          june_event\<lparr>end_date := Some ''2024-06-01T11:30:00Z''\<rparr>)"
    by (simp add: june_event_def end_date_missing_def parse_june_10 p)
  from a b show ?thesis by simp
qed

text \<open>
  C1 as it is worded holds for every raw event without an end date, on every host. Three
  events without an end date for which the end is not the start plus two hours: one
  whose start date is not a date (\<^verbatim>\<open>toISOString\<close> throws a RangeError); one that
  starts at the last time a Date can hold (the same); and, on a machine on New York time,
  one that starts at 2024-03-10T06:30:00Z, half an hour before the clocks go forward,
  which gets the end 2024-03-10T07:30:00Z, one hour after its start.
\<close>

theorem normalize_end_counterexample:
  "normalize_event utc_host (june_event\<lparr>start_date := ''TBD''\<rparr>) = Inl RangeError \<and>
   normalize_event utc_host (june_event\<lparr>start_date := ''+275760-09-13T00:00:00.000Z''\<rparr>) =
     Inl RangeError \<and>
   normalize_event new_york_host (june_event\<lparr>start_date := ''2024-03-10T06:30:00Z''\<rparr>) =
     Inr (\<lparr>ev_start = Some 1710052200000, ev_end = Some (1710052200000 + 3600000),
           ev_summary = ''Canvass'', ev_description = ''Door knocking'',
           ev_location = ''Town hall''\<rparr>,
          june_event\<lparr>start_date := ''2024-03-10T06:30:00Z'',
                     end_date := Some ''2024-03-10T07:30:00.000Z''\<rparr>)"
  by code_simp

section \<open>The end of a normalized event against its start\<close>

text \<open>
  C7, as the program has it. For every normalized event made from a raw event whose end
  date is missing or empty, on a host whose time zone keeps one offset from UTC and
  that reads its own ISO strings back: the start and the end are both valid times and
  the end is two hours after the start, so strictly after it. For a normalized event
  made from a raw event with an end date, the start and the end are the two dates of the
  raw event as the host reads them; the program does not compare them.
\<close>

theorem normalized_end_after_start:
  fixes event :: "'a raw_event_scheme"
  assumes "normalize_event h event = Inr (ev, event2)"
  shows "(end_date_missing event \<and> fixed_offset h c \<and>
          (\<forall>t. Date_parse h (start_date event) = Some t \<longrightarrow>
               Date_parse h (iso_string (t + 2 * msPerHour)) = Some (t + 2 * msPerHour)) \<longrightarrow>
            (\<exists>s e. ev_start ev = Some s \<and> ev_end ev = Some e \<and> e = s + 7200000 \<and> s < e)) \<and>
         (\<not> end_date_missing event \<longrightarrow>
            ev_start ev = Date_parse h (start_date event) \<and>
            ev_end ev = Date_parse h (the (end_date event)))"
proof (rule conjI; rule impI)
  assume a: "end_date_missing event \<and> fixed_offset h c \<and>
          (\<forall>t. Date_parse h (start_date event) = Some t \<longrightarrow>
               Date_parse h (iso_string (t + 2 * msPerHour)) = Some (t + 2 * msPerHour))"
  from assms have d: "default_end_date h event = Inr event2" and e: "event_data_of h event2 = Inr ev"
    by (simp_all add: normalize_event_Inr)
  from a have u: "UTC h (LocalTime h t + 2 * msPerHour) = t + 2 * msPerHour" for t
    by (simp add: fixed_offset_def)
  from default_end_date_cases [OF d] a obtain t where
    t: "Date_parse h (start_date event) = Some t"
    and e2: "event2 = event\<lparr>end_date := Some (iso_string (t + 2 * msPerHour))\<rparr>"
    by (auto simp: u)
  from a t have reread: "Date_parse h (iso_string (t + 2 * msPerHour)) = Some (t + 2 * msPerHour)"
    by simp
  from e e2 t reread have "ev_start ev = Some t \<and> ev_end ev = Some (t + 2 * msPerHour)"
    by (auto simp: event_data_of_def new_Date_def split: option.splits)
  then show "\<exists>s e. ev_start ev = Some s \<and> ev_end ev = Some e \<and> e = s + 7200000 \<and> s < e"
    by (simp add: msPerHour_def)
next
  assume a: "\<not> end_date_missing event"
  from assms have d: "default_end_date h event = Inr event2" and e: "event_data_of h event2 = Inr ev"
    by (simp_all add: normalize_event_Inr)
  from a d have "event2 = event" by (simp add: default_end_date_present)
  moreover from a obtain s where "end_date event = Some s"
    by (auto simp: end_date_missing_def split: option.splits)
  ultimately show "ev_start ev = Date_parse h (start_date event) \<and>
            ev_end ev = Date_parse h (the (end_date event))"
    using e by (auto simp: event_data_of_def new_Date_def split: option.splits)
qed

lemma normalize_june_event:
  "normalize_event utc_host june_event =
     Inr (\<lparr>ev_start = Some 1717236000000, ev_end = Some 1717243200000, ev_summary = ''Canvass'',
           ev_description = ''Door knocking'', ev_location = ''Town hall''\<rparr>,
          june_event\<lparr>end_date := Some ''2024-06-01T12:00:00.000Z''\<rparr>)"
  by code_simp

theorem normalized_end_after_start_witness:
  "\<exists>s e. ev_start \<lparr>ev_start = Some 1717236000000, ev_end = Some 1717243200000,
                    ev_summary = ''Canvass'', ev_description = ''Door knocking'',
                    ev_location = ''Town hall''\<rparr> = Some s \<and>
          ev_end \<lparr>ev_start = Some 1717236000000, ev_end = Some 1717243200000,
                  ev_summary = ''Canvass'', ev_description = ''Door knocking'',
                  ev_location = ''Town hall''\<rparr> = Some e \<and>
          e = s + 7200000 \<and> s < e"
proof -
  have missing: "end_date_missing june_event"
    by (simp add: june_event_def end_date_missing_def)
  have reread: "\<forall>t. Date_parse utc_host (start_date june_event) = Some t \<longrightarrow>
      Date_parse utc_host (iso_string (t + 2 * msPerHour)) = Some (t + 2 * msPerHour)"
    by (simp add: june_event_def parse_june_10 msPerHour_def iso_june_12 parse_june_12)
  from normalized_end_after_start [OF normalize_june_event, of 0] missing reread fixed_offset_utc_host
  show ?thesis by blast
qed

text \<open>
  C7 as it is worded holds for every normalized event. An event whose end date is an
  hour before its start date is handed to the calendar with that end, and one whose end
  date is not a date with an invalid end.
\<close>

theorem normalized_end_counterexample:
  "normalize_event utc_host (june_event\<lparr>end_date := Some ''2024-06-01T09:00:00Z''\<rparr>) =
     Inr (\<lparr>ev_start = Some 1717236000000, ev_end = Some (1717236000000 - 3600000),
           ev_summary = ''Canvass'', ev_description = ''Door knocking'',
           ev_location = ''Town hall''\<rparr>,
          june_event\<lparr>end_date := Some ''2024-06-01T09:00:00Z''\<rparr>) \<and>
   normalize_event utc_host (june_event\<lparr>end_date := Some ''TBD''\<rparr>) =
     Inr (\<lparr>ev_start = Some 1717236000000, ev_end = None,
           ev_summary = ''Canvass'', ev_description = ''Door knocking'',
           ev_location = ''Town hall''\<rparr>,
          june_event\<lparr>end_date := Some ''TBD''\<rparr>)"
  by code_simp

section \<open>What normalization writes\<close>

text \<open>
  C8, as the program has it. Normalizing a raw event sends no request upstream. It
  leaves every field of the raw event other than the end date as it was, the fields the
  program never reads included. An event with an end date that is not empty is left
  exactly as it was. For an event whose end date is missing or empty: when its start
  date is not a date, or the time two hours of local time after its start is beyond
  what a Date can hold, a RangeError is thrown and the event is left as it was;
  otherwise its end date is overwritten with the ISO string of that time, which on a
  host whose time zone keeps one offset is the start plus two hours, and this also when
  the event has no location and a TypeError follows.
\<close>

theorem normalize_frame:
  fixes event :: "'a raw_event_scheme"
  shows "snd (snd (forEach_callback h event sent)) = sent \<and>
         (fst (snd (forEach_callback h event sent)))\<lparr>end_date := end_date event\<rparr> = event \<and>
         (\<not> end_date_missing event \<longrightarrow> fst (snd (forEach_callback h event sent)) = event) \<and>
         (end_date_missing event \<and> Date_parse h (start_date event) = None \<longrightarrow>
            forEach_callback h event sent = (Inl RangeError, event, sent)) \<and>
         (\<forall>t. end_date_missing event \<and> Date_parse h (start_date event) = Some t \<and>
              \<bar>UTC h (LocalTime h t + 2 * msPerHour)\<bar> > 8640000000000000 \<longrightarrow>
            forEach_callback h event sent = (Inl RangeError, event, sent)) \<and>
         (\<forall>t. end_date_missing event \<and> Date_parse h (start_date event) = Some t \<and>
              \<bar>UTC h (LocalTime h t + 2 * msPerHour)\<bar> \<le> 8640000000000000 \<longrightarrow>
            fst (snd (forEach_callback h event sent)) =
              event\<lparr>end_date := Some (iso_string (UTC h (LocalTime h t + 2 * msPerHour)))\<rparr> \<and>
            fst (snd (forEach_callback h event sent)) \<noteq> event \<and>
            (location event = None \<longrightarrow> fst (forEach_callback h event sent) = Inl TypeError)) \<and>
         (\<forall>t c. end_date_missing event \<and> Date_parse h (start_date event) = Some t \<and>
              fixed_offset h c \<and> \<bar>t + 2 * msPerHour\<bar> \<le> 8640000000000000 \<longrightarrow>
            fst (snd (forEach_callback h event sent)) =
              event\<lparr>end_date := Some (iso_string (t + 2 * msPerHour))\<rparr>)"
proof -
  let ?r = "forEach_callback h event sent"
  have io: "snd (snd ?r) = sent"
    by (simp add: forEach_callback_def split: sum.splits)
  have present: "fst (snd ?r) = event" if "\<not> end_date_missing event"
    using that by (simp add: forEach_callback_def default_end_date_present)
  have invalid: "?r = (Inl RangeError, event, sent)"
    if "end_date_missing event" "Date_parse h (start_date event) = None"
    using that by (simp add: forEach_callback_def default_end_date_invalid_start)
  have beyond: "?r = (Inl RangeError, event, sent)"
    if "end_date_missing event" "Date_parse h (start_date event) = Some t"
      "\<bar>UTC h (LocalTime h t + 2 * msPerHour)\<bar> > 8640000000000000" for t
    using that
    by (simp add: forEach_callback_def default_end_date_def Let_def setHours_plus TimeClip_def
        toISOString_def)
  have written: "fst (snd ?r) =
          event\<lparr>end_date := Some (iso_string (UTC h (LocalTime h t + 2 * msPerHour)))\<rparr> \<and>
        fst (snd ?r) \<noteq> event \<and>
        (location event = None \<longrightarrow> fst ?r = Inl TypeError)"
    if m: "end_date_missing event" and t: "Date_parse h (start_date event) = Some t"
      and u: "\<bar>UTC h (LocalTime h t + 2 * msPerHour)\<bar> \<le> 8640000000000000" for t
  proof -
    let ?s = "iso_string (UTC h (LocalTime h t + 2 * msPerHour))"
    have d: "default_end_date h event = Inr (event\<lparr>end_date := Some ?s\<rparr>)"
      using m t u by (simp add: default_end_date_missing)
    then have w: "fst (snd ?r) = event\<lparr>end_date := Some ?s\<rparr>"
      by (simp add: forEach_callback_def)
    from m have ne: "end_date event \<noteq> Some ?s"
      using iso_string_not_Nil [of "UTC h (LocalTime h t + 2 * msPerHour)"]
      by (auto simp: end_date_missing_def split: option.splits)
    have "event\<lparr>end_date := Some ?s\<rparr> \<noteq> event"
    proof
      assume "event\<lparr>end_date := Some ?s\<rparr> = event"
      then have "end_date (event\<lparr>end_date := Some ?s\<rparr>) = end_date event" by (rule arg_cong)
      with ne show False by simp
    qed
    moreover have "fst ?r = Inl TypeError" if "location event = None"
      using d that by (simp add: forEach_callback_def event_data_of_def)
    ultimately show ?thesis using w by simp
  qed
  have fixed: "fst (snd ?r) = event\<lparr>end_date := Some (iso_string (t + 2 * msPerHour))\<rparr>"
    if "end_date_missing event" "Date_parse h (start_date event) = Some t"
      "fixed_offset h c" "\<bar>t + 2 * msPerHour\<bar> \<le> 8640000000000000" for t c
  proof -
    from that(3) have "UTC h (LocalTime h t + 2 * msPerHour) = t + 2 * msPerHour"
      by (simp add: fixed_offset_def)
    with written [OF that(1,2)] that(4) show ?thesis by simp
  qed
  have others: "(fst (snd ?r))\<lparr>end_date := end_date event\<rparr> = event"
  proof (cases "default_end_date h event")
    case (Inl e)
    then show ?thesis by (simp add: forEach_callback_def)
  next
    case (Inr event2)
    from default_end_date_cases [OF Inr] have "event2\<lparr>end_date := end_date event\<rparr> = event"
      by auto
    with Inr show ?thesis by (simp add: forEach_callback_def)
  qed
  from io others present invalid beyond written fixed show ?thesis by blast
qed

theorem normalize_frame_witness:
  "fst (snd (forEach_callback utc_host june_event [])) =
     june_event\<lparr>end_date := Some ''2024-06-01T12:00:00.000Z''\<rparr> \<and>
   forEach_callback utc_host (june_event\<lparr>location := None\<rparr>) [] =
     (Inl TypeError,
      june_event\<lparr>location := None, end_date := Some ''2024-06-01T12:00:00.000Z''\<rparr>, []) \<and>
   forEach_callback utc_host (june_event\<lparr>start_date := ''TBD''\<rparr>) [] =
     (Inl RangeError, june_event\<lparr>start_date := ''TBD''\<rparr>, []) \<and>
   fst (snd (forEach_callback utc_host (june_event\<lparr>end_date := Some ''2024-06-01T11:30:00Z''\<rparr>) [])) =
     june_event\<lparr>end_date := Some ''2024-06-01T11:30:00Z''\<rparr>"
proof -
  have m: "end_date_missing june_event"
    "end_date_missing (june_event\<lparr>location := None\<rparr>)"
    "end_date_missing (june_event\<lparr>start_date := ''TBD''\<rparr>)"
    "\<not> end_date_missing (june_event\<lparr>end_date := Some ''2024-06-01T11:30:00Z''\<rparr>)"
    by (simp_all add: june_event_def end_date_missing_def)
  have s: "Date_parse utc_host (start_date june_event) = Some 1717236000000"
    "Date_parse utc_host (start_date (june_event\<lparr>location := None\<rparr>)) = Some 1717236000000"
    by (simp_all add: june_event_def parse_june_10)
  have n: "Date_parse utc_host (start_date (june_event\<lparr>start_date := ''TBD''\<rparr>)) = None"
    unfolding utc_host_def by (simp, code_simp)
  have r: "\<bar>(1717236000000::int) + 2 * msPerHour\<bar> \<le> 8640000000000000"
    by (simp add: msPerHour_def)
  have i: "iso_string (1717236000000 + 2 * msPerHour) = ''2024-06-01T12:00:00.000Z''"
    using iso_june_12 by (simp add: msPerHour_def)
  have a: "fst (snd (forEach_callback utc_host june_event [])) =
     june_event\<lparr>end_date := Some ''2024-06-01T12:00:00.000Z''\<rparr>"
    using normalize_frame [of utc_host june_event "[]"] m(1) s(1) fixed_offset_utc_host r i
    by metis
  have b1: "fst (snd (forEach_callback utc_host (june_event\<lparr>location := None\<rparr>) [])) =
     june_event\<lparr>location := None, end_date := Some ''2024-06-01T12:00:00.000Z''\<rparr>"
    using normalize_frame [of utc_host "june_event\<lparr>location := None\<rparr>" "[]"] m(2) s(2)
      fixed_offset_utc_host r i
    by metis
  have u: "UTC utc_host (LocalTime utc_host 1717236000000 + 2 * msPerHour) = 1717236000000 + 2 * msPerHour"
    by (simp add: utc_host_def)
  have b2: "fst (forEach_callback utc_host (june_event\<lparr>location := None\<rparr>) []) = Inl TypeError"
  proof -
    have "location (june_event\<lparr>location := None\<rparr>) = None" by simp
    moreover have "\<bar>UTC utc_host (LocalTime utc_host 1717236000000 + 2 * msPerHour)\<bar> \<le> 8640000000000000"
      using r u by simp
    ultimately show ?thesis
      using normalize_frame [of utc_host "june_event\<lparr>location := None\<rparr>" "[]"] m(2) s(2)
      by blast
  qed
  have b3: "snd (snd (forEach_callback utc_host (june_event\<lparr>location := None\<rparr>) [])) = []"
    using normalize_frame [of utc_host "june_event\<lparr>location := None\<rparr>" "[]"] by blast
  have b: "forEach_callback utc_host (june_event\<lparr>location := None\<rparr>) [] =
     (Inl TypeError,
      june_event\<lparr>location := None, end_date := Some ''2024-06-01T12:00:00.000Z''\<rparr>, [])"
    using b1 b2 b3 by (simp add: prod_eq_iff)
  have c: "forEach_callback utc_host (june_event\<lparr>start_date := ''TBD''\<rparr>) [] =
     (Inl RangeError, june_event\<lparr>start_date := ''TBD''\<rparr>, [])"
    using normalize_frame [of utc_host "june_event\<lparr>start_date := ''TBD''\<rparr>" "[]"] m(3) n
    by blast
  have d: "fst (snd (forEach_callback utc_host (june_event\<lparr>end_date := Some ''2024-06-01T11:30:00Z''\<rparr>) [])) =
     june_event\<lparr>end_date := Some ''2024-06-01T11:30:00Z''\<rparr>"
    using normalize_frame [of utc_host "june_event\<lparr>end_date := Some ''2024-06-01T11:30:00Z''\<rparr>" "[]"] m(4)
    by blast
  from a b c d show ?thesis by simp
qed

text \<open>
  C8 as it is worded leaves every field of the raw event as it was. The June event has
  no end date before it is normalized and the end date 2024-06-01T12:00:00.000Z after.
\<close>

theorem normalize_frame_counterexample:
  "end_date june_event = None \<and>
   map_sum id (\<lambda>r. end_date (snd r)) (normalize_event utc_host june_event) =
     Inr (Some ''2024-06-01T12:00:00.000Z'') \<and>
   end_date (fst (snd (forEach_callback utc_host june_event []))) =
     Some ''2024-06-01T12:00:00.000Z''"
  by code_simp

section \<open>Following the pages of a feed\<close>

lemma read_page_inner: "read_page (inner_page (status, batch, href)) = Inr (batch, Some href)"
  by (simp add: read_page_def inner_page_def page_def)

lemma read_page_last: "read_page (last_page status batch) = Inr (batch, None)"
  by (simp add: read_page_def last_page_def page_def)

lemma fetch_loop_pages:
  "fetch_loop token clock url events sent (map inner_page front @ last_page status batch # rest) =
     (Some (Inr (events @ concat (map (\<lambda>p. fst (snd p)) front) @ batch)),
      sent @ requests_from token clock (length sent) (url # map (\<lambda>p. snd (snd p)) front))"
proof (induction front arbitrary: url events sent)
  case Nil
  then show ?case by (simp add: read_page_last requests_from_def)
next
  case (Cons p front)
  obtain st b href where p: "p = (st, b, href)" by (cases p) auto
  show ?case
    using Cons.IH [of href "events @ b" "sent @ [make_request url (clock (length sent)) token]"]
    by (simp add: p read_page_inner requests_from_def)
qed

lemma fetch_loop_failure:
  assumes "read_page bad = Inl e"
  shows "fetch_loop token clock url events sent (map inner_page front @ bad # rest) =
     (Some (Inl e),
      sent @ requests_from token clock (length sent) (url # map (\<lambda>p. snd (snd p)) front))"
proof (induction front arbitrary: url events sent)
  case Nil
  then show ?case by (simp add: assms requests_from_def)
next
  case (Cons p front)
  obtain st b href where p: "p = (st, b, href)" by (cases p) auto
  show ?case
    using Cons.IH [of href "events @ b" "sent @ [make_request url (clock (length sent)) token]"]
    by (simp add: p read_page_inner requests_from_def)
qed

text \<open>
  C2. Let the answers to the successive requests of a call be N pages, the first N - 1
  (\<open>front\<close>) each with a batch and a next link and the last with a batch and no next
  link, whatever would be answered after them (\<open>rest\<close>). Then the call returns, with
  the batches of the N pages one after the other in the order of the pages, and it has
  sent exactly N requests: the first to the listing address, each following one to the
  address the page before it gave.
\<close>

theorem fetch_all_pages:
  "fetchAllEventsForCalendar keys clock
       (map inner_page front @ last_page status batch # rest) calendarName =
     (Some (Inr (concat (map (\<lambda>p. fst (snd p)) front) @ batch)),
      requests_from (get_property keys calendarName) clock 0
        (events_url # map (\<lambda>p. snd (snd p)) front)) \<and>
   length (snd (fetchAllEventsForCalendar keys clock
       (map inner_page front @ last_page status batch # rest) calendarName)) = length front + 1"
  by (simp add: fetchAllEventsForCalendar_def fetch_loop_pages requests_from_def)

section \<open>Facts about the settling of the fetches\<close>

lemma promise_all_run_fulfilled:
  assumes "\<forall>p \<in> set ss. snd p = Inr (f (fst p))"
    and "\<forall>i < length vals. vals ! i = None \<longrightarrow> i \<in> fst ` set ss"
    and "\<forall>i < length vals. vals ! i \<noteq> None \<longrightarrow> vals ! i = Some (f i)"
  shows "promise_all_run vals ss = Some (Inr (map f [0..<length vals]))"
  using assms
proof (induction ss arbitrary: vals)
  case Nil
  then have all: "\<forall>i < length vals. vals ! i = Some (f i)" by auto
  then have "list_all (\<lambda>v. v \<noteq> None) vals"
    unfolding list_all_length by auto
  moreover from all have "map the vals = map f [0..<length vals]"
    by (intro nth_equalityI) auto
  ultimately show ?case by simp
next
  case (Cons p ss)
  obtain i r where p: "p = (i, r)" by (cases p) auto
  show ?case
  proof (cases "list_all (\<lambda>v. v \<noteq> None) vals")
    case True
    then have "\<forall>i < length vals. vals ! i = Some (f i)"
      using Cons.prems(3) unfolding list_all_length by blast
    then have "map the vals = map f [0..<length vals]"
      by (intro nth_equalityI) auto
    with True p show ?thesis by simp
  next
    case False
    from p Cons.prems(1) have r: "r = Inr (f i)" by simp
    let ?vals = "vals[i := Some (f i)]"
    have 1: "\<forall>q \<in> set ss. snd q = Inr (f (fst q))" using Cons.prems(1) by simp
    have 2: "\<forall>j < length ?vals. ?vals ! j = None \<longrightarrow> j \<in> fst ` set ss"
    proof (intro allI impI)
      fix j assume j: "j < length ?vals" and n: "?vals ! j = None"
      then have "j \<noteq> i" by auto
      with n have "vals ! j = None" by simp
      with j Cons.prems(2) have "j \<in> fst ` set (p # ss)" by simp
      with \<open>j \<noteq> i\<close> p show "j \<in> fst ` set ss" by auto
    qed
    have 3: "\<forall>j < length ?vals. ?vals ! j \<noteq> None \<longrightarrow> ?vals ! j = Some (f j)"
    proof (intro allI impI)
      fix j assume j: "j < length ?vals" and n: "?vals ! j \<noteq> None"
      show "?vals ! j = Some (f j)"
      proof (cases "j = i")
        case True
        with j show ?thesis by simp
      next
        case False
        with j n Cons.prems(3) show ?thesis by simp
      qed
    qed
    from Cons.IH [OF 1 2 3] False p r show ?thesis by simp
  qed
qed

lemma promise_all_run_rejected:
  assumes "(i, Inl e) \<in> set ss" and "i < length vals" and "vals ! i = None"
    and "\<forall>p \<in> set ss. fst p = i \<longrightarrow> isl (snd p)"
  shows "\<exists>j e'. (j, Inl e') \<in> set ss \<and> promise_all_run vals ss = Some (Inl e')"
  using assms
proof (induction ss arbitrary: vals)
  case Nil
  then show ?case by simp
next
  case (Cons p ss)
  from Cons.prems(2,3) have nall: "\<not> list_all (\<lambda>v. v \<noteq> None) vals"
    unfolding list_all_length by blast
  obtain j r where p: "p = (j, r)" by (cases p) auto
  show ?case
  proof (cases r)
    case (Inl e')
    with p nall show ?thesis by auto
  next
    case (Inr v)
    with p Cons.prems(4) have ji: "j \<noteq> i" by auto
    with Cons.prems(1) p Inr have 1: "(i, Inl e) \<in> set ss" by auto
    have 2: "i < length (vals[j := Some v])" using Cons.prems(2) by simp
    have 3: "vals[j := Some v] ! i = None" using Cons.prems(3) ji by simp
    have 4: "\<forall>p \<in> set ss. fst p = i \<longrightarrow> isl (snd p)" using Cons.prems(4) by simp
    from Cons.IH [OF 1 2 3 4] obtain k e' where
      "(k, Inl e') \<in> set ss" "promise_all_run (vals[j := Some v]) ss = Some (Inl e')" by blast
    with p Inr nall show ?thesis by auto
  qed
qed

lemma fetch_task_completion [simp]:
  "fetch_task keys (w\<lparr>completion := ord\<rparr>) calendarNames i = fetch_task keys w calendarNames i"
  by (simp add: fetch_task_def)

lemma settlements_all_fulfilled:
  assumes "set (completion w) \<subseteq> {..<length calendarNames}"
    and "\<forall>i < length calendarNames. fst (fetch_task keys w calendarNames i) = Some (Inr (events_of i))"
  shows "settlements keys w calendarNames = map (\<lambda>i. (i, Inr (events_of i))) (completion w)"
proof -
  have "List.map_filter
       (\<lambda>i. if i < length calendarNames
            then map_option (Pair i) (fst (fetch_task keys w calendarNames i)) else None) ord
        = map (\<lambda>i. (i, Inr (events_of i))) ord" if "set ord \<subseteq> {..<length calendarNames}" for ord
    using that assms(2) by (induction ord) auto
  with assms(1) show ?thesis by (simp add: settlements_def)
qed

lemma fetch_flattened_fulfilled:
  assumes "set (completion w) = {..<length calendarNames}"
    and "\<forall>i < length calendarNames. fst (fetch_task keys w calendarNames i) = Some (Inr (events_of i))"
  shows "fetch_flattened keys w calendarNames =
           Some (Inr (concat (map events_of [0..<length calendarNames])))"
proof -
  let ?n = "length calendarNames"
  let ?ss = "map (\<lambda>i. (i, Inr (events_of i))) (completion w)"
  have ss: "settlements keys w calendarNames = ?ss"
    using assms by (intro settlements_all_fulfilled) auto
  have 1: "\<forall>p \<in> set ?ss. snd p = Inr (events_of (fst p))" by auto
  have 2: "\<forall>i < length (replicate ?n None). replicate ?n None ! i = None \<longrightarrow> i \<in> fst ` set ?ss"
    using assms(1) by (auto simp: image_image)
  have 3: "\<forall>i < length (replicate ?n None). (replicate ?n None :: 'a list option list) ! i \<noteq> None \<longrightarrow>
      replicate ?n None ! i = Some (events_of i)" by simp
  from promise_all_run_fulfilled [OF 1 2 3]
  have "promise_all ?n ?ss = Some (Inr (map events_of [0..<?n]))"
    by (simp add: promise_all_def)
  then show ?thesis by (simp add: fetch_flattened_def ss)
qed

section \<open>The order of the events of several feeds\<close>

lemma forEach_normalized:
  assumes "\<forall>event \<in> set events.
             \<exists>ev event2. normalize_event h event = Inr (ev, event2) \<and>
                         ev_start ev \<noteq> None \<and> ev_end ev \<noteq> None"
  shows "forEach h cal events =
           Inr (cal\<lparr>cal_events :=
                      cal_events cal @ map (\<lambda>event. fst (projr (normalize_event h event))) events\<rparr>,
                map (\<lambda>event. snd (projr (normalize_event h event))) events)"
  using assms
proof (induction events arbitrary: cal)
  case Nil
  then show ?case by simp
next
  case (Cons event rest)
  from Cons.prems obtain ev event2 where n: "normalize_event h event = Inr (ev, event2)"
    and v: "ev_start ev \<noteq> None" "ev_end ev \<noteq> None"
    by auto
  from v have c: "createEvent cal ev = Inr (cal\<lparr>cal_events := cal_events cal @ [ev]\<rparr>)"
    by (simp add: createEvent_def)
  from Cons.prems have "\<forall>x \<in> set rest.
      \<exists>ev event2. normalize_event h x = Inr (ev, event2) \<and> ev_start ev \<noteq> None \<and> ev_end ev \<noteq> None"
    by simp
  from Cons.IH [OF this, of "cal\<lparr>cal_events := cal_events cal @ [ev]\<rparr>"] n c show ?case
    by simp
qed

text \<open>
  C3. When the fetch of every feed of the selection returns its events, in whatever order
  the fetches return: the flattened sequence is the events of the first feed, then those
  of the second, and so on in the order of the selection, each feed's events in the order
  its fetch returned them. \<^verbatim>\<open>generateICalForFeeds\<close> returns, with what the loop over
  exactly that sequence gives: its exception, or its calendar. When every event of the
  sequence is normalized to an event with a valid start and a valid end, the calendar is
  returned, under the name of the selection and with one entry for each event of the
  sequence, the normalized event, in the order of the sequence. None of this depends on
  the order in which the fetches return.
\<close>

theorem flattened_in_feed_order:
  fixes w :: "('a raw_event_scheme) world"
  assumes "set (completion w) = {..<length calendarNames}"
    and "\<forall>i < length calendarNames.
           fst (fetch_task keys w calendarNames i) = Some (Inr (events_of i))"
  shows "fetch_flattened keys w calendarNames =
           Some (Inr (concat (map events_of [0..<length calendarNames]))) \<and>
         generateICalForFeeds h keys w calendarNames overrideCalendarName =
           (case forEach h (ical (calendar_name h calendarNames overrideCalendarName))
                   (concat (map events_of [0..<length calendarNames])) of
              Inl e \<Rightarrow> Some (Inl e)
            | Inr (calendar, flattened2) \<Rightarrow> Some (Inr calendar)) \<and>
         ((\<forall>event \<in> set (concat (map events_of [0..<length calendarNames])).
             \<exists>ev event2. normalize_event h event = Inr (ev, event2) \<and>
                         ev_start ev \<noteq> None \<and> ev_end ev \<noteq> None) \<longrightarrow>
          generateICalForFeeds h keys w calendarNames overrideCalendarName =
            Some (Inr \<lparr>cal_name = calendar_name h calendarNames overrideCalendarName,
                       cal_events =
                         map (\<lambda>event. fst (projr (normalize_event h event)))
                           (concat (map events_of [0..<length calendarNames]))\<rparr>)) \<and>
         generateICalForFeeds h keys w calendarNames overrideCalendarName =
           generateICalForFeeds h keys (w\<lparr>completion := [0..<length calendarNames]\<rparr>)
             calendarNames overrideCalendarName"
proof -
  let ?flat = "concat (map events_of [0..<length calendarNames])"
  let ?w = "w\<lparr>completion := [0..<length calendarNames]\<rparr>"
  let ?name = "calendar_name h calendarNames overrideCalendarName"
  have a: "fetch_flattened keys w calendarNames = Some (Inr ?flat)"
    using assms by (rule fetch_flattened_fulfilled)
  have "set (completion ?w) = {..<length calendarNames}"
    by (simp add: atLeast0LessThan)
  moreover have "\<forall>i < length calendarNames.
      fst (fetch_task keys ?w calendarNames i) = Some (Inr (events_of i))"
    using assms(2) by simp
  ultimately have b: "fetch_flattened keys ?w calendarNames = Some (Inr ?flat)"
    by (rule fetch_flattened_fulfilled)
  have c: "generateICalForFeeds h keys w calendarNames overrideCalendarName =
           (case forEach h (ical ?name) ?flat of
              Inl e \<Rightarrow> Some (Inl e)
            | Inr (calendar, flattened2) \<Rightarrow> Some (Inr calendar))"
    by (simp add: generateICalForFeeds_def a)
  have d: "generateICalForFeeds h keys w calendarNames overrideCalendarName =
            Some (Inr \<lparr>cal_name = ?name,
                       cal_events = map (\<lambda>event. fst (projr (normalize_event h event))) ?flat\<rparr>)"
    if "\<forall>event \<in> set ?flat. \<exists>ev event2. normalize_event h event = Inr (ev, event2) \<and>
          ev_start ev \<noteq> None \<and> ev_end ev \<noteq> None"
    unfolding c forEach_normalized [OF that] by (simp add: ical_def)
  have e: "generateICalForFeeds h keys w calendarNames overrideCalendarName =
           generateICalForFeeds h keys ?w calendarNames overrideCalendarName"
    by (simp add: generateICalForFeeds_def a b)
  from a c d e show ?thesis by blast
qed

lemma normalize_event_titled:
  "normalize_event utc_host (event_titled t) =
     Inr (\<lparr>ev_start = Some 1717236000000, ev_end = Some 1717243200000, ev_summary = t,
           ev_description = ''Door knocking'', ev_location = ''Town hall''\<rparr>,
          (event_titled t)\<lparr>end_date := Some ''2024-06-01T12:00:00.000Z''\<rparr>)"
proof -
  have "end_date_missing (event_titled t)"
    by (simp add: event_titled_def june_event_def end_date_missing_def)
  moreover have "Date_parse utc_host (start_date (event_titled t)) = Some 1717236000000"
    by (simp add: event_titled_def june_event_def parse_june_10)
  moreover have "UTC utc_host (LocalTime utc_host 1717236000000 + 2 * msPerHour) = 1717243200000"
    by (simp add: utc_host_def msPerHour_def)
  ultimately have "default_end_date utc_host (event_titled t) =
      Inr ((event_titled t)\<lparr>end_date := Some ''2024-06-01T12:00:00.000Z''\<rparr>)"
    using default_end_date_missing [of "event_titled t" utc_host 1717236000000 1717243200000]
    by (simp add: iso_june_12)
  then show ?thesis
    by (simp add: normalize_event_unfold event_data_of_def new_Date_def event_titled_def
        june_event_def parse_june_10 parse_june_12)
qed

theorem flattened_in_feed_order_witness:
  "fetch_flattened sample_keys slow_fast_world [''TEAM_A'', ''TEAM_B''] =
     Some (Inr [event_titled ''a1'', event_titled ''a2'', event_titled ''b1'']) \<and>
   generateICalForFeeds utc_host sample_keys slow_fast_world [''TEAM_A'', ''TEAM_B''] None =
     Some (Inr \<lparr>cal_name = ''Events for Team_a Team_b'',
                cal_events =
                  [\<lparr>ev_start = Some 1717236000000, ev_end = Some 1717243200000,
                     ev_summary = ''a1'', ev_description = ''Door knocking'',
                     ev_location = ''Town hall''\<rparr>,
                   \<lparr>ev_start = Some 1717236000000, ev_end = Some 1717243200000,
                     ev_summary = ''a2'', ev_description = ''Door knocking'',
                     ev_location = ''Town hall''\<rparr>,
                   \<lparr>ev_start = Some 1717236000000, ev_end = Some 1717243200000,
                     ev_summary = ''b1'', ev_description = ''Door knocking'',
                     ev_location = ''Town hall''\<rparr>]\<rparr>)"
proof -
  let ?events_of = "\<lambda>i. if i = (0::nat) then [event_titled ''a1'', event_titled ''a2'']
                         else [event_titled ''b1'']"
  have 0: "fst (fetch_task sample_keys slow_fast_world [''TEAM_A'', ''TEAM_B''] 0) =
             Some (Inr (?events_of 0))"
    by code_simp
  have 1: "fst (fetch_task sample_keys slow_fast_world [''TEAM_A'', ''TEAM_B''] 1) =
             Some (Inr (?events_of 1))"
    by code_simp
  have all: "\<forall>i < length [''TEAM_A'', ''TEAM_B''].
      fst (fetch_task sample_keys slow_fast_world [''TEAM_A'', ''TEAM_B''] i) =
        Some (Inr (?events_of i))"
  proof (intro allI impI)
    fix i :: nat assume "i < length [''TEAM_A'', ''TEAM_B'']"
    then have "i = 0 \<or> i = 1" by auto
    with 0 1 show "fst (fetch_task sample_keys slow_fast_world [''TEAM_A'', ''TEAM_B''] i) =
        Some (Inr (?events_of i))" by auto
  qed
  have order: "set (completion slow_fast_world) = {..<length [''TEAM_A'', ''TEAM_B'']}"
    by (auto simp: slow_fast_world_def)
  have upt: "[0..<length [''TEAM_A'', ''TEAM_B'']] = [0, 1]"
    by (simp add: upt_rec)
  have flat: "concat (map ?events_of [0, 1]) =
      [event_titled ''a1'', event_titled ''a2'', event_titled ''b1'']"
    by simp
  have name: "calendar_name utc_host [''TEAM_A'', ''TEAM_B''] None = ''Events for Team_a Team_b''"
    by code_simp
  note inst = flattened_in_feed_order [OF order all, of utc_host None, unfolded upt flat]
  from inst have a: "fetch_flattened sample_keys slow_fast_world [''TEAM_A'', ''TEAM_B''] =
     Some (Inr [event_titled ''a1'', event_titled ''a2'', event_titled ''b1''])"
    by blast
  have "\<forall>event \<in> set [event_titled ''a1'', event_titled ''a2'', event_titled ''b1''].
      \<exists>ev event2. normalize_event utc_host event = Inr (ev, event2) \<and>
        ev_start ev \<noteq> None \<and> ev_end ev \<noteq> None"
    by (simp add: normalize_event_titled)
  with inst have "generateICalForFeeds utc_host sample_keys slow_fast_world [''TEAM_A'', ''TEAM_B''] None =
      Some (Inr \<lparr>cal_name = calendar_name utc_host [''TEAM_A'', ''TEAM_B''] None,
                 cal_events = map (\<lambda>event. fst (projr (normalize_event utc_host event)))
                   [event_titled ''a1'', event_titled ''a2'', event_titled ''b1'']\<rparr>)"
    by blast
  then have b: "generateICalForFeeds utc_host sample_keys slow_fast_world [''TEAM_A'', ''TEAM_B''] None =
     Some (Inr \<lparr>cal_name = ''Events for Team_a Team_b'',
                cal_events =
                  [\<lparr>ev_start = Some 1717236000000, ev_end = Some 1717243200000,
                     ev_summary = ''a1'', ev_description = ''Door knocking'',
                     ev_location = ''Town hall''\<rparr>,
                   \<lparr>ev_start = Some 1717236000000, ev_end = Some 1717243200000,
                     ev_summary = ''a2'', ev_description = ''Door knocking'',
                     ev_location = ''Town hall''\<rparr>,
                   \<lparr>ev_start = Some 1717236000000, ev_end = Some 1717243200000,
                     ev_summary = ''b1'', ev_description = ''Door knocking'',
                     ev_location = ''Town hall''\<rparr>]\<rparr>)"
    by (simp add: name normalize_event_titled)
  from a b show ?thesis by simp
qed

section \<open>A fetch that fails\<close>

lemma set_map_filter: "set (List.map_filter f xs) = {y. \<exists>x \<in> set xs. f x = Some y}"
  by (induction xs) (auto split: option.splits)

lemma set_settlements:
  "set (settlements keys w calendarNames) =
     {(j, r). j \<in> set (completion w) \<and> j < length calendarNames \<and>
              fst (fetch_task keys w calendarNames j) = Some r}"
  unfolding settlements_def set_map_filter by (auto split: if_splits)

lemma fetch_flattened_rejected:
  assumes "i \<in> set (completion w)" and "i < length calendarNames"
    and "fst (fetch_task keys w calendarNames i) = Some (Inl e)"
  shows "\<exists>j e'. j < length calendarNames \<and>
           fst (fetch_task keys w calendarNames j) = Some (Inl e') \<and>
           fetch_flattened keys w calendarNames = Some (Inl e')"
proof -
  let ?ss = "settlements keys w calendarNames"
  let ?vals = "replicate (length calendarNames) None :: 'a list option list"
  have 1: "(i, Inl e) \<in> set ?ss" using assms by (simp add: set_settlements)
  have 2: "i < length ?vals" using assms(2) by simp
  have 3: "?vals ! i = None" using assms(2) by simp
  have 4: "\<forall>p \<in> set ?ss. fst p = i \<longrightarrow> isl (snd p)"
    using assms(3) by (auto simp: set_settlements)
  from promise_all_run_rejected [OF 1 2 3 4] obtain j e' where
    j: "(j, Inl e') \<in> set ?ss" and r: "promise_all_run ?vals ?ss = Some (Inl e')" by blast
  from j have "j < length calendarNames \<and> fst (fetch_task keys w calendarNames j) = Some (Inl e')"
    by (simp add: set_settlements)
  moreover from r have "fetch_flattened keys w calendarNames = Some (Inl e')"
    by (simp add: fetch_flattened_def promise_all_def)
  ultimately show ?thesis by blast
qed

lemma fetch_loop_result_of_network:
  "fst (fetch_loop token clock url events sent net) =
   fst (fetch_loop token2 clock2 url2 events sent2 net)"
proof (induction net arbitrary: url url2 events sent sent2)
  case Nil
  then show ?case by simp
next
  case (Cons r net)
  show ?case
  proof (cases "read_page r")
    case (Inl e)
    then show ?thesis by simp
  next
    case (Inr p)
    obtain batch next_link where p: "p = (batch, next_link)" by (cases p) auto
    show ?thesis
    proof (cases next_link)
      case None
      with Inr p show ?thesis by simp
    next
      case (Some href)
      with Inr p Cons.IH [of href "events @ batch"] show ?thesis by (simp add: Let_def)
    qed
  qed
qed

text \<open>
  C5, as the program has it. When the fetch of some feed of the selection fails, the
  whole operation fails with the exception of a failed fetch and no calendar is made. A
  fetch fails when a request meets a network failure, a body that is not JSON, or a
  payload without the embedded list of events or without the links record; the pages
  fetched before are dropped with it. The status of a response is not read. The
  exception carries no feed identifier: what a fetch returns depends on the answers it
  meets and on nothing else, the feed it is for included.
\<close>

theorem failed_fetch_fails_all:
  fixes w :: "('a raw_event_scheme) world"
  assumes "i \<in> set (completion w)" and "i < length calendarNames"
    and "fst (fetch_task keys w calendarNames i) = Some (Inl e)"
  shows "(\<exists>j e'. j < length calendarNames \<and>
            fst (fetch_task keys w calendarNames j) = Some (Inl e') \<and>
            generateICalForFeeds h keys w calendarNames overrideCalendarName = Some (Inl e')) \<and>
         (\<forall>bad err front rest clock calendarName.
            read_page (bad :: 'a raw_event_scheme fetch_result) = Inl err \<longrightarrow>
            fst (fetchAllEventsForCalendar keys clock (map inner_page front @ bad # rest) calendarName)
              = Some (Inl err)) \<and>
         (\<forall>status status2 b. read_page (Response status b :: 'a raw_event_scheme fetch_result) =
            read_page (Response status2 b)) \<and>
         (\<forall>keys2 clock clock2 net feed feed2.
            fst (fetchAllEventsForCalendar keys clock (net :: 'a raw_event_scheme fetch_result list) feed) =
            fst (fetchAllEventsForCalendar keys2 clock2 net feed2))"
proof -
  from fetch_flattened_rejected [OF assms] obtain j e' where
    "j < length calendarNames" "fst (fetch_task keys w calendarNames j) = Some (Inl e')"
    "fetch_flattened keys w calendarNames = Some (Inl e')" by blast
  then have a: "\<exists>j e'. j < length calendarNames \<and>
            fst (fetch_task keys w calendarNames j) = Some (Inl e') \<and>
            generateICalForFeeds h keys w calendarNames overrideCalendarName = Some (Inl e')"
    by (auto simp: generateICalForFeeds_def)
  have b: "fst (fetchAllEventsForCalendar keys clock (map inner_page front @ bad # rest) calendarName)
              = Some (Inl err)"
    if "read_page bad = Inl err"
    for bad :: "'a raw_event_scheme fetch_result" and err front rest clock calendarName
    using that by (simp add: fetchAllEventsForCalendar_def fetch_loop_failure)
  have c: "read_page (Response status b) = read_page (Response status2 b)"
    for status status2 and b :: "'a raw_event_scheme body"
    by (simp add: read_page_def)
  have d: "fst (fetchAllEventsForCalendar keys clock net feed) =
            fst (fetchAllEventsForCalendar keys2 clock2 net feed2)"
    for keys2 clock clock2 feed feed2 and net :: "'a raw_event_scheme fetch_result list"
    unfolding fetchAllEventsForCalendar_def by (rule fetch_loop_result_of_network)
  from a b c d show ?thesis by blast
qed

theorem failed_fetch_fails_all_witness:
  "\<exists>j e'. j < length [''TEAM_A'', ''TEAM_B''] \<and>
      fst (fetch_task sample_keys (constant_world (Response 403 error_body) :: raw_event world)
             [''TEAM_A'', ''TEAM_B''] j) = Some (Inl e') \<and>
      generateICalForFeeds utc_host sample_keys (constant_world (Response 403 error_body) :: raw_event world)
        [''TEAM_A'', ''TEAM_B''] None = Some (Inl e')"
proof -
  let ?w = "constant_world (Response 403 error_body) :: raw_event world"
  have 1: "0 \<in> set (completion ?w)" by (simp add: constant_world_def)
  have 2: "0 < length [''TEAM_A'', ''TEAM_B'']" by simp
  have 3: "fst (fetch_task sample_keys ?w [''TEAM_A'', ''TEAM_B''] 0) = Some (Inl TypeError)"
    by code_simp
  from failed_fetch_fails_all [OF 1 2 3, of utc_host None] show ?thesis by blast
qed

text \<open>
  C5 as it is worded has every response with a status that is not a success fail the
  operation, and the failure name the feed. A response with status 500 whose body is a
  well-formed page is taken as a page, and a calendar is made; and the fetches of two
  different feeds that meet the same error answer fail with the same exception.
\<close>

theorem failed_fetch_counterexample:
  "generateICalForFeeds utc_host sample_keys
     (constant_world (Response 500 (Json (page [june_event] None)))) [''TEAM_A''] None =
     Some (Inr \<lparr>cal_name = ''Events for Team_a'',
                cal_events = [\<lparr>ev_start = Some 1717236000000, ev_end = Some 1717243200000,
                                ev_summary = ''Canvass'', ev_description = ''Door knocking'',
                                ev_location = ''Town hall''\<rparr>]\<rparr>) \<and>
   generateICalForFeeds utc_host sample_keys
     (constant_world (Response 403 error_body) :: raw_event world) [''TEAM_A''] None =
     Some (Inl TypeError) \<and>
   generateICalForFeeds utc_host sample_keys
     (constant_world (Response 403 error_body) :: raw_event world) [''TEAM_B''] None =
     Some (Inl TypeError)"
  by code_simp

section \<open>An event without a location\<close>

lemma default_end_date_location:
  "default_end_date h event = Inr event2 \<Longrightarrow> location event2 = location event"
  by (auto simp: default_end_date_def Let_def split: if_splits sum.splits)

lemma normalize_event_no_location:
  assumes "location event = None"
  shows "\<exists>e. normalize_event h event = Inl e"
proof (cases "default_end_date h event")
  case (Inl e)
  then show ?thesis by (simp add: normalize_event_unfold)
next
  case (Inr event2)
  with assms have "location event2 = None" by (simp add: default_end_date_location)
  with Inr show ?thesis by (simp add: normalize_event_unfold event_data_of_def)
qed

lemma forEach_no_location:
  assumes "event \<in> set events" and "location event = None"
  shows "\<exists>e. forEach h cal events = Inl e"
  using assms(1)
proof (induction events arbitrary: cal)
  case Nil
  then show ?case by simp
next
  case (Cons x rest)
  show ?case
  proof (cases "normalize_event h x")
    case (Inl e)
    then show ?thesis by simp
  next
    case (Inr p)
    obtain ev x2 where p: "p = (ev, x2)" by (cases p) auto
    from Inr normalize_event_no_location [of x h] assms(2) have "x \<noteq> event" by auto
    with Cons.prems have "event \<in> set rest" by simp
    show ?thesis
    proof (cases "createEvent cal ev")
      case (Inl e)
      with Inr p show ?thesis by simp
    next
      case c: (Inr cal1)
      from Cons.IH [OF \<open>event \<in> set rest\<close>, of cal1] obtain e where
        "forEach h cal1 rest = Inl e" by blast
      with Inr p c show ?thesis by simp
    qed
  qed
qed

text \<open>
  C10. When the fetches return a flattened sequence that holds an event without a
  location, no calendar is made: the loop over the events ends with an exception
  whatever the calendar held, \<^verbatim>\<open>generateICalForFeeds\<close> fails, and the handler of the
  events endpoint, which catches nothing, fails with it. For the event itself, reading
  the venue throws a TypeError as soon as its end date has been dealt with.
\<close>

theorem missing_location_fails:
  fixes w :: "('a raw_event_scheme) world"
  assumes "fetch_flattened keys w calendarNames = Some (Inr flattened)"
    and "event \<in> set flattened" and "location event = None"
  shows "(\<exists>e. generateICalForFeeds h keys w calendarNames overrideCalendarName = Some (Inl e)) \<and>
         (\<forall>cal. \<exists>e. forEach h cal flattened = Inl e) \<and>
         (\<forall>event2. default_end_date h event = Inr event2 \<longrightarrow>
            normalize_event h event = Inl TypeError) \<and>
         (find (\<lambda>feed. \<not> truthy (get_property keys feed)) calendarNames = None \<longrightarrow>
            (\<exists>e. fst (events_handler h keys w overrideCalendarName (Some calendarNames)) =
                    Uncaught e))"
proof -
  have loop: "\<exists>e. forEach h cal flattened = Inl e" for cal
    using assms(2,3) by (rule forEach_no_location)
  then obtain e where
    "forEach h (ical (calendar_name h calendarNames overrideCalendarName)) flattened = Inl e"
    by blast
  with assms(1) have gen:
    "generateICalForFeeds h keys w calendarNames overrideCalendarName = Some (Inl e)"
    by (simp add: generateICalForFeeds_def)
  have one: "normalize_event h event = Inl TypeError"
    if "default_end_date h event = Inr event2" for event2
    using that assms(3) default_end_date_location [OF that]
    by (simp add: normalize_event_unfold event_data_of_def)
  from gen have handler:
    "fst (events_handler h keys w overrideCalendarName (Some calendarNames)) = Uncaught e"
    if "find (\<lambda>feed. \<not> truthy (get_property keys feed)) calendarNames = None"
    using that by (simp add: events_handler_def)
  from loop gen one handler show ?thesis by blast
qed

theorem missing_location_fails_witness:
  "\<exists>e. fst (events_handler utc_host sample_keys
              (constant_world (last_page 200 [june_event\<lparr>location := None\<rparr>])) None
              (Some [''TEAM_A''])) = Uncaught e"
proof -
  let ?w = "constant_world (last_page 200 [june_event\<lparr>location := None\<rparr>])"
  have 1: "fetch_flattened sample_keys ?w [''TEAM_A''] = Some (Inr [june_event\<lparr>location := None\<rparr>])"
    by code_simp
  have 2: "june_event\<lparr>location := None\<rparr> \<in> set [june_event\<lparr>location := None\<rparr>]" by simp
  have 3: "location (june_event\<lparr>location := None\<rparr>) = None" by simp
  have 4: "find (\<lambda>feed. \<not> truthy (get_property sample_keys feed)) [''TEAM_A''] = None"
    by code_simp
  from missing_location_fails [OF 1 2 3, of utc_host None] 4 show ?thesis by blast
qed

section \<open>Feeds that are not in the registry\<close>

text \<open>
  A selection with an identifier whose lookup gives nothing truthy is turned down with
  status 400 and a message that names the first such identifier, and no request goes
  upstream. This is so for every identifier that is neither in the registry nor the name
  of a member of \<^verbatim>\<open>Object.prototype\<close>.
\<close>

lemma events_handler_rejects:
  assumes "find (\<lambda>feed. \<not> truthy (get_property keys feed)) feeds = Some feed"
  shows "events_handler h keys w nameOverride (Some feeds) =
           (Text 400 (''Feed '' @ feed @ '' is not configured in API keys.''), [])"
  using assms by (simp add: events_handler_def)

lemma unknown_feed_rejected:
  assumes "feed \<in> set feeds" and "map_of keys feed = None"
    and "feed \<notin> set object_prototype_names"
  shows "\<exists>first. first \<in> set feeds \<and> \<not> truthy (get_property keys first) \<and>
           events_handler h keys w nameOverride (Some feeds) =
             (Text 400 (''Feed '' @ first @ '' is not configured in API keys.''), [])"
proof -
  from assms(2,3) have "\<not> truthy (get_property keys feed)"
    by (simp add: get_property_def)
  with assms(1) obtain first where
    f: "find (\<lambda>feed. \<not> truthy (get_property keys feed)) feeds = Some first"
    by (cases "find (\<lambda>feed. \<not> truthy (get_property keys feed)) feeds") (auto simp: find_None_iff)
  then have "first \<in> set feeds \<and> \<not> truthy (get_property keys first)"
    by (auto simp: find_Some_iff)
  with events_handler_rejects [OF f] show ?thesis by blast
qed

lemma fetch_loop_first_request:
  "\<exists>more. snd (fetch_loop token clock url events sent net) =
           sent @ make_request url (clock (length sent)) token # more"
proof (induction net arbitrary: url events sent)
  case Nil
  then show ?case by simp
next
  case (Cons r net)
  show ?case
  proof (cases "read_page r")
    case (Inl e)
    then show ?thesis by simp
  next
    case (Inr p)
    obtain batch next_link where p: "p = (batch, next_link)" by (cases p) auto
    show ?thesis
    proof (cases next_link)
      case None
      with Inr p show ?thesis by simp
    next
      case (Some href)
      from Cons.IH [of href "events @ batch" "sent @ [make_request url (clock (length sent)) token]"]
      show ?thesis using Inr p Some by (auto simp: Let_def)
    qed
  qed
qed

text \<open>
  An identifier that is the name of a member of \<^verbatim>\<open>Object.prototype\<close> passes the test of
  the handler although the registry has no such feed, and a request is sent upstream with
  the inherited member where the token should be.
\<close>

lemma inherited_name_passes:
  assumes "map_of keys feed = None" and "feed \<in> set object_prototype_names"
  shows "(\<forall>status message.
            fst (events_handler h keys w nameOverride (Some [feed])) \<noteq> Text status message) \<and>
         (\<exists>more. snd (events_handler h keys w nameOverride (Some [feed])) =
            make_request events_url (clock_of w 0 0) (Inherited feed) # more)"
proof -
  from assms have g: "get_property keys feed = Inherited feed"
    by (simp add: get_property_def)
  have r: "snd (events_handler h keys w nameOverride (Some [feed])) =
             snd (fetch_loop (Inherited feed) (clock_of w 0) events_url [] [] (network_of w 0))"
    by (simp add: events_handler_def all_requests_def fetch_task_def
        fetchAllEventsForCalendar_def g)
  have "\<forall>status message.
      fst (events_handler h keys w nameOverride (Some [feed])) \<noteq> Text status message"
    by (auto simp: events_handler_def g split: option.splits sum.splits)
  moreover from fetch_loop_first_request [of "Inherited feed" "clock_of w 0" events_url "[]" "[]" "network_of w 0"]
  have "\<exists>more. snd (events_handler h keys w nameOverride (Some [feed])) =
            make_request events_url (clock_of w 0 0) (Inherited feed) # more"
    by (simp add: r)
  ultimately show ?thesis by blast
qed

text \<open>
  C4 at the selection \<^verbatim>\<open>feed=toString\<close>, with a registry of two feeds and an upstream
  that answers 403 with an error body: the registry has no feed of that name, and yet the
  request is not turned down. One request goes upstream, with the inherited function as
  its token, and the handler fails on the answer.
\<close>

theorem inherited_name_not_rejected:
  "map_of sample_keys ''toString'' = None \<and>
   events_handler utc_host sample_keys
     (constant_world (Response 403 error_body) :: raw_event world) None (Some [''toString'']) =
     (Uncaught TypeError,
      [make_request events_url 1717000000000 (Inherited ''toString'')])"
  by code_simp

end
